theory Spec2Isabelle
  imports Main "HOL-Library.Word" "HOL-Library.Monad_Syntax"
begin

unbundle bit_operations_syntax

section \<open>Conventions\<close>

text \<open>
  This theory embeds the parts of the NES emulator core that its specification makes
  checkable statements about: the MMC3 mapper (\<^verbatim>\<open>mapper_mmc3.cpp\<close>), the NROM mapper
  (\<^verbatim>\<open>mapper_nrom.cpp\<close>), the PPU register file, OAM DMA and sprite evaluation
  (\<^verbatim>\<open>ppu.cpp\<close>), the bus decoder (\<^verbatim>\<open>bus.cpp\<close>), the CPU reset, step, branch and
  stack instructions (\<^verbatim>\<open>cpu.cpp\<close>) and the scheduler's NMI edge detector
  (\<^verbatim>\<open>nes.cpp\<close>).

  \<^item> \<^verbatim>\<open>uint8_t\<close>, \<^verbatim>\<open>uint16_t\<close>, \<^verbatim>\<open>uint32_t\<close>, \<^verbatim>\<open>uint64_t\<close> are \<open>8 word\<close>, \<open>16 word\<close>,
    \<open>32 word\<close>, \<open>64 word\<close>; arithmetic wraps as in C++. C++ \<^verbatim>\<open>int\<close> counters that stay
    far below \<open>2 ^ 31\<close> are \<open>int\<close>.
  \<^item> A C++ struct is a record. Record fields are global names in Isabelle, so the
    one-letter registers carry a prefix (\<^verbatim>\<open>A\<close> is \<open>reg_A\<close>, the PPU's \<^verbatim>\<open>v\<close> is \<open>ppu_v\<close>).
  \<^item> A \<^verbatim>\<open>std::vector\<close> is a list. Where the source indexes it unchecked (MMC3),
    reading or writing goes through \<open>at\<close> and \<open>put\<close>, which return \<open>None\<close> for an
    index outside the vector, and a division by zero is \<open>None\<close> as well: \<open>None\<close> stands
    for every fault of the C++. Where the source tests the index first (NROM), the
    model has the same test.
  \<^item> A member function that mutates its object takes the object and returns the new one.
\<close>

type_synonym u8 = "8 word"
type_synonym u16 = "16 word"
type_synonym u32 = "32 word"
type_synonym u64 = "64 word"

definition at :: "'a list \<Rightarrow> nat \<Rightarrow> 'a option" where
  "at xs i = (if i < length xs then Some (xs ! i) else None)"

definition put :: "'a list \<Rightarrow> nat \<Rightarrow> 'a \<Rightarrow> 'a list option" where
  "put xs i x = (if i < length xs then Some (xs[i := x]) else None)"

section \<open>MMC3 mapper (mapper\_mmc3.h, mapper\_mmc3.cpp)\<close>

record MapperMMC3 =
  prg :: "u8 list"
  chr :: "u8 list"
  prgRAM :: "u8 list"
  chrIsRAM :: bool
  mir :: u8
  bankSelect :: u8
  bank :: "u8 list"
  prgMode :: bool
  chrMode :: bool
  prgRAMEnable :: u8
  irqLatch :: u8
  irqCounter :: u8
  irqEnable :: bool
  irqReload :: bool
  irqFlag :: bool
  prevA12 :: bool
  a12LowCycles :: int
  sawRiseThisLine :: bool

text \<open>
  \<^verbatim>\<open>prgBankAddr\<close>. \<^verbatim>\<open>(uint32_t)prg.size()\<close> truncates the vector's size to 32 bits;
  the final \<^verbatim>\<open>%\<close> divides by that truncated size.
\<close>

definition prgBankAddr :: "u8 list \<Rightarrow> u32 \<Rightarrow> u32 \<Rightarrow> u32 option" where
  "prgBankAddr p bnk off =
     (if p = [] then Some 0
      else
        let sz = (of_nat (length p) :: u32);
            bankCount = sz div 0x2000;
            b = (if bankCount \<noteq> 0 then bnk mod bankCount else 0)
        in if sz = 0 then None
           else Some ((b * 0x2000 + (off AND 0x1FFF)) mod sz))"

definition prg_at :: "u8 list \<Rightarrow> u32 \<Rightarrow> u32 \<Rightarrow> u8 option" where
  "prg_at p bnk off = do { i \<leftarrow> prgBankAddr p bnk off; at p (unat i) }"

definition mmc3_cpuRead :: "MapperMMC3 \<Rightarrow> u16 \<Rightarrow> u8 option" where
  "mmc3_cpuRead m a =
     (if a \<ge> 0x6000 \<and> a < 0x8000 then at (prgRAM m) (unat (a - 0x6000))
      else if a \<ge> 0x8000 then do {
        let off = (ucast (a AND 0x1FFF) :: u32);
        r6 \<leftarrow> at (bank m) 6;
        r7 \<leftarrow> at (bank m) 7;
        let b6 = (ucast (r6 AND 0x3F) :: u32);
        let b7 = (ucast (r7 AND 0x3F) :: u32);
        let last = (of_nat (length (prg m)) :: u32) div 0x2000 - 1;
        if \<not> prgMode m then
          (if a < 0xA000 then prg_at (prg m) b6 off
           else if a < 0xC000 then prg_at (prg m) b7 off
           else if a < 0xE000 then prg_at (prg m) (last - 1) off
           else prg_at (prg m) last off)
        else
          (if a < 0xA000 then prg_at (prg m) (last - 1) off
           else if a < 0xC000 then prg_at (prg m) b7 off
           else if a < 0xE000 then prg_at (prg m) b6 off
           else prg_at (prg m) last off)
      }
      else Some 0xFF)"

text \<open>
  \<^verbatim>\<open>cpuWrite\<close>: PRG-RAM at \<^verbatim>\<open>$6000-$7FFF\<close>, registers decoded by \<^verbatim>\<open>a & 0xE001\<close>.
\<close>

definition mmc3_cpuWrite :: "MapperMMC3 \<Rightarrow> u16 \<Rightarrow> u8 \<Rightarrow> MapperMMC3 option" where
  "mmc3_cpuWrite m a v =
     (if a \<ge> 0x6000 \<and> a < 0x8000 then
        (if prgRAMEnable m AND 0x80 \<noteq> 0 \<and> prgRAMEnable m AND 0x40 = 0
         then do { r \<leftarrow> put (prgRAM m) (unat (a - 0x6000)) v; Some (m\<lparr>prgRAM := r\<rparr>) }
         else Some m)
      else if a < 0x8000 then Some m
      else if a AND 0xE001 = 0x8000 then
        Some (m\<lparr>bankSelect := v AND 0x07, prgMode := (v AND 0x40 \<noteq> 0),
                chrMode := (v AND 0x80 \<noteq> 0)\<rparr>)
      else if a AND 0xE001 = 0x8001 then
        (let idx = bankSelect m AND 7;
             val = (if idx \<le> 1 then v AND 0xFE else v)
         in do { r \<leftarrow> put (bank m) (unat idx) val; Some (m\<lparr>bank := r\<rparr>) })
      else if a AND 0xE001 = 0xA000 then Some (m\<lparr>mir := (if v AND 1 \<noteq> 0 then 0 else 1)\<rparr>)
      else if a AND 0xE001 = 0xA001 then Some (m\<lparr>prgRAMEnable := v\<rparr>)
      else if a AND 0xE001 = 0xC000 then Some (m\<lparr>irqLatch := v\<rparr>)
      else if a AND 0xE001 = 0xC001 then Some (m\<lparr>irqReload := True\<rparr>)
      else if a AND 0xE001 = 0xE000 then Some (m\<lparr>irqEnable := False, irqFlag := False\<rparr>)
      else if a AND 0xE001 = 0xE001 then Some (m\<lparr>irqEnable := True\<rparr>)
      else Some m)"

text \<open>
  \<^verbatim>\<open>ppuRead\<close> and \<^verbatim>\<open>ppuWrite\<close>. The lambdas \<^verbatim>\<open>rd1k\<close>, \<^verbatim>\<open>rd2k\<close>, \<^verbatim>\<open>wr1k\<close>, \<^verbatim>\<open>wr2k\<close>
  compute a 32-bit offset and reduce it modulo \<^verbatim>\<open>chr.size()\<close> (a \<^verbatim>\<open>size_t\<close>, so the
  remainder is taken on the untruncated size); an empty vector makes that a division
  by zero.
\<close>

definition chr1k :: "u8 list \<Rightarrow> u8 \<Rightarrow> u32 \<Rightarrow> nat option" where
  "chr1k c b ofs =
     (if c = [] then None
      else Some (unat ((ucast b :: u32) * 0x0400 + (ofs AND 0x03FF)) mod length c))"

definition chr2k :: "u8 list \<Rightarrow> u8 \<Rightarrow> u32 \<Rightarrow> nat option" where
  "chr2k c bEven ofs =
     (if c = [] then None
      else let base = (ucast (bEven AND 0xFE) :: u32) * 0x0400
           in Some (unat (base + (ofs AND 0x07FF)) mod length c))"

definition chr_index :: "MapperMMC3 \<Rightarrow> u16 \<Rightarrow> nat option" where
  "chr_index m a =
     (if \<not> chrMode m then
        (if a < 0x0800 then do { b \<leftarrow> at (bank m) 0; chr2k (chr m) b (ucast (a AND 0x07FF)) }
         else if a < 0x1000 then do { b \<leftarrow> at (bank m) 1; chr2k (chr m) b (ucast (a AND 0x07FF)) }
         else do {
           let idx = (2 + ucast (drop_bit 10 (a - 0x1000)) :: u8);
           b \<leftarrow> at (bank m) (unat idx);
           chr1k (chr m) b (ucast (a AND 0x03FF)) })
      else
        (if a < 0x1000 then do {
           let idx = (2 + ucast (drop_bit 10 a) :: u8);
           b \<leftarrow> at (bank m) (unat idx);
           chr1k (chr m) b (ucast (a AND 0x03FF)) }
         else if a < 0x1800 then do { b \<leftarrow> at (bank m) 0; chr2k (chr m) b (ucast (a AND 0x07FF)) }
         else do { b \<leftarrow> at (bank m) 1; chr2k (chr m) b (ucast (a AND 0x07FF)) }))"

definition mmc3_ppuRead :: "MapperMMC3 \<Rightarrow> u16 \<Rightarrow> u8 option" where
  "mmc3_ppuRead m a =
     (if a \<ge> 0x2000 then Some 0
      else do { i \<leftarrow> chr_index m a; at (chr m) i })"

definition mmc3_ppuWrite :: "MapperMMC3 \<Rightarrow> u16 \<Rightarrow> u8 \<Rightarrow> MapperMMC3 option" where
  "mmc3_ppuWrite m a v =
     (if a \<ge> 0x2000 \<or> \<not> chrIsRAM m then Some m
      else do { i \<leftarrow> chr_index m a; c \<leftarrow> put (chr m) i v; Some (m\<lparr>chr := c\<rparr>) })"

text \<open>
  The scanline counter. \<open>clockIRQ\<close> is the block that \<^verbatim>\<open>ppuA12Clock\<close> and
  \<^verbatim>\<open>ppuOnScanlineDot260\<close> both contain: reload or decrement, then raise the flag.
\<close>

definition clockIRQ :: "MapperMMC3 \<Rightarrow> MapperMMC3" where
  "clockIRQ m =
     (let m1 = (if irqReload m then m\<lparr>irqCounter := irqLatch m, irqReload := False\<rparr>
                else if irqCounter m = 0 then m\<lparr>irqCounter := irqLatch m\<rparr>
                else m\<lparr>irqCounter := irqCounter m - 1\<rparr>)
      in if irqCounter m1 = 0 \<and> irqEnable m1 then m1\<lparr>irqFlag := True\<rparr> else m1)"

definition ppuA12Clock :: "MapperMMC3 \<Rightarrow> bool \<Rightarrow> MapperMMC3" where
  "ppuA12Clock m level =
     (let m1 =
        (if \<not> level then
           (if a12LowCycles m < 64 then m\<lparr>a12LowCycles := a12LowCycles m + 1\<rparr> else m)
         else
           (let m2 = (if \<not> prevA12 m \<and> a12LowCycles m \<ge> 8
                      then (clockIRQ m)\<lparr>sawRiseThisLine := True\<rparr> else m)
            in m2\<lparr>a12LowCycles := 0\<rparr>))
      in m1\<lparr>prevA12 := level\<rparr>)"

definition ppuOnScanlineDot260 :: "MapperMMC3 \<Rightarrow> bool \<Rightarrow> MapperMMC3" where
  "ppuOnScanlineDot260 m rendering =
     (if \<not> rendering then m\<lparr>sawRiseThisLine := False\<rparr>
      else (if \<not> sawRiseThisLine m then clockIRQ m else m)\<lparr>sawRiseThisLine := False\<rparr>)"

definition irqPending :: "MapperMMC3 \<Rightarrow> bool" where
  "irqPending m = irqFlag m"

definition irqAck :: "MapperMMC3 \<Rightarrow> MapperMMC3" where
  "irqAck m = m\<lparr>irqFlag := False\<rparr>"

text \<open>
  The PPU publishes one A12 sample per dot. \<open>a12_feed\<close> delivers a list of samples;
  \<open>a12_pulse lo hi\<close> is \<open>lo\<close> dots of A12 low followed by \<open>hi\<close> dots of A12 high, that
  is, one rising edge preceded by \<open>lo\<close> low dots; \<open>a12_pulses\<close> chains such edges.
\<close>

fun a12_feed :: "MapperMMC3 \<Rightarrow> bool list \<Rightarrow> MapperMMC3" where
  "a12_feed m [] = m"
| "a12_feed m (l # ls) = a12_feed (ppuA12Clock m l) ls"

definition a12_pulse :: "nat \<Rightarrow> nat \<Rightarrow> bool list" where
  "a12_pulse lo hi = replicate lo False @ replicate hi True"

fun a12_pulses :: "(nat \<times> nat) list \<Rightarrow> bool list" where
  "a12_pulses [] = []"
| "a12_pulses ((lo, hi) # ps) = a12_pulse lo hi @ a12_pulses ps"

fun valid_edges :: "(nat \<times> nat) list \<Rightarrow> bool" where
  "valid_edges [] = True"
| "valid_edges ((lo, hi) # ps) = (8 \<le> lo \<and> 1 \<le> hi \<and> valid_edges ps)"


text \<open>
  A valid rising edge as one step: what \<^verbatim>\<open>ppuA12Clock(true)\<close> does when the previous
  sample was low and the low phase lasted at least 8 dots.
\<close>

definition valid_rise :: "MapperMMC3 \<Rightarrow> MapperMMC3" where
  "valid_rise m = (clockIRQ m)\<lparr>sawRiseThisLine := True, a12LowCycles := 0, prevA12 := True\<rparr>"

text \<open>A small MMC3 cartridge for closed examples, and the same with its IRQ armed.\<close>

definition mmc3_demo :: MapperMMC3 where
  "mmc3_demo = \<lparr>prg = replicate 0x8000 0xEA, chr = replicate 0x2000 0,
     prgRAM = replicate 0x2000 0, chrIsRAM = False,
     mir = 0, bankSelect = 0, bank = replicate 8 0, prgMode = False, chrMode = False,
     prgRAMEnable = 0x80, irqLatch = 0, irqCounter = 0, irqEnable = False, irqReload = False,
     irqFlag = False, prevA12 = False, a12LowCycles = 0, sawRiseThisLine = False\<rparr>"

definition mmc3_armed :: MapperMMC3 where
  "mmc3_armed = mmc3_demo\<lparr>irqLatch := 5, irqEnable := True, irqReload := True\<rparr>"

section \<open>NROM mapper (mapper\_nrom.h, mapper\_nrom.cpp)\<close>

record MapperNROM =
  nrom_prg :: "u8 list"
  nrom_chr :: "u8 list"
  hasChrRam :: bool
  nrom_mir :: u8

definition nrom_cpuRead :: "MapperNROM \<Rightarrow> u16 \<Rightarrow> u8" where
  "nrom_cpuRead m addr =
     (if addr < 0x8000 then 0xFF
      else
        let prgSize = length (nrom_prg m);
            prgAddr = (if prgSize = 0x4000 then (ucast ((addr - 0x8000) AND 0x3FFF) :: u32)
                       else ucast (addr - 0x8000))
        in if unat prgAddr < prgSize then nrom_prg m ! unat prgAddr else 0xFF)"

definition nrom_cpuWrite :: "MapperNROM \<Rightarrow> u16 \<Rightarrow> u8 \<Rightarrow> MapperNROM" where
  "nrom_cpuWrite m addr v = m"

definition nrom_ppuRead :: "MapperNROM \<Rightarrow> u16 \<Rightarrow> u8" where
  "nrom_ppuRead m addr =
     (if addr < 0x2000 \<and> unat addr < length (nrom_chr m) then nrom_chr m ! unat addr else 0)"

definition nrom_ppuWrite :: "MapperNROM \<Rightarrow> u16 \<Rightarrow> u8 \<Rightarrow> MapperNROM" where
  "nrom_ppuWrite m addr v =
     (if addr < 0x2000 \<and> hasChrRam m \<and> unat addr < length (nrom_chr m)
      then m\<lparr>nrom_chr := (nrom_chr m)[unat addr := v]\<rparr> else m)"

section \<open>The Mapper and APU interfaces (mapper.h, apu.h)\<close>

text \<open>
  \<^verbatim>\<open>Mapper\<close> is an abstract class; the bus and the PPU call whichever subclass the
  cartridge holds. The model takes the virtual functions as a record of functions over
  an arbitrary cartridge state \<open>'c\<close>, so that every statement about the bus, the CPU and
  the PPU holds for every mapper. The two read functions return a value only: none of
  the three mappers of the repository changes its state in a read. The APU enters the
  statements below only through its three entry points on the bus, which are taken the
  same way over an arbitrary APU state \<open>'a\<close>. The cartridge is always present
  (\<^verbatim>\<open>NES::powerOn\<close> connects it before anything runs).
\<close>

record ('c, 'a) hw =
  cart_cpuRead :: "'c \<Rightarrow> u16 \<Rightarrow> u8"
  cart_cpuWrite :: "'c \<Rightarrow> u16 \<Rightarrow> u8 \<Rightarrow> 'c"
  cart_ppuRead :: "'c \<Rightarrow> u16 \<Rightarrow> u8"
  cart_ppuWrite :: "'c \<Rightarrow> u16 \<Rightarrow> u8 \<Rightarrow> 'c"
  cart_mirroring :: "'c \<Rightarrow> u8"
  cart_irqPending :: "'c \<Rightarrow> bool"
  cart_irqAck :: "'c \<Rightarrow> 'c"
  apu_cpuRead :: "'a \<Rightarrow> u16 \<Rightarrow> u8 \<times> 'a"
  apu_cpuWrite :: "'a \<Rightarrow> u16 \<Rightarrow> u8 \<Rightarrow> 'a"
  apu_irqLine :: "'a \<Rightarrow> bool"

text \<open>The NROM cartridge behind that interface, with an APU that is never addressed.\<close>

definition nrom_hw :: "(MapperNROM, unit) hw" where
  "nrom_hw = \<lparr>cart_cpuRead = nrom_cpuRead, cart_cpuWrite = nrom_cpuWrite,
     cart_ppuRead = nrom_ppuRead, cart_ppuWrite = nrom_ppuWrite,
     cart_mirroring = nrom_mir, cart_irqPending = (\<lambda>m. False), cart_irqAck = (\<lambda>m. m),
     apu_cpuRead = (\<lambda>a r. (0, a)), apu_cpuWrite = (\<lambda>a r v. a), apu_irqLine = (\<lambda>a. False)\<rparr>"

section \<open>PPU (ppu.h, ppu.cpp)\<close>

text \<open>
  The fields of \<^verbatim>\<open>struct PPU\<close> that the register file, OAM DMA and sprite evaluation
  read or write. The fixed arrays \<^verbatim>\<open>vram[4096]\<close>, \<^verbatim>\<open>oam[256]\<close>, \<^verbatim>\<open>palette[32]\<close> are
  functions from the index type the code uses (\<^verbatim>\<open>oam\<close> is indexed by a byte, so every
  index is inside the array; \<open>mapNT_bound\<close> and the \<^verbatim>\<open>& 0x1F\<close> of the palette index
  keep the other two inside theirs). \<^verbatim>\<open>secOAM[32]\<close>, indexed by an \<^verbatim>\<open>int\<close>, is a list
  of 32 bytes.
  The frame buffer, the per-line pixel buffers and the background shifters and latches
  are written by the rendering half of \<^verbatim>\<open>tick\<close> only and are left out.
\<close>

record PPU =
  vram :: "u16 \<Rightarrow> u8"
  oam :: "u8 \<Rightarrow> u8"
  secOAM :: "u8 list"
  secCount :: int
  palette :: "u16 \<Rightarrow> u8"
  PPUCTRL :: u8
  PPUMASK :: u8
  PPUSTATUS :: u8
  OAMADDR :: u8
  ppu_v :: u16
  ppu_t :: u16
  fineX :: u8
  addrLatch :: bool
  vramReadBuffer :: u8
  scanline :: int
  dot :: int
  frame_odd :: bool
  nmi_occurred :: bool

definition nmi_output :: "PPU \<Rightarrow> bool" where
  "nmi_output p = (PPUCTRL p AND 0x80 \<noteq> 0)"

definition incrementVRAMAddr :: "PPU \<Rightarrow> u16" where
  "incrementVRAMAddr p = (if PPUCTRL p AND 0x04 \<noteq> 0 then 32 else 1)"

definition renderingEnabled :: "PPU \<Rightarrow> bool" where
  "renderingEnabled p = (PPUMASK p AND 0x18 \<noteq> 0)"

definition mapNT :: "u16 \<Rightarrow> u8 \<Rightarrow> u16" where
  "mapNT a m =
     (let nt = (a - 0x2000) AND 0x0FFF;
          table = drop_bit 10 nt;
          off = nt AND 0x03FF
      in if m = 0 then (if table AND 2 \<noteq> 0 then 0x400 else 0x000) + off
         else if m = 1 then (if table AND 1 \<noteq> 0 then 0x400 else 0x000) + off
         else if m = 2 then 0x000 + off
         else if m = 3 then 0x400 + off
         else if m = 4 then (table * 0x400) + off
         else (if table AND 1 \<noteq> 0 then 0x400 else 0x000) + off)"

text \<open>
  The palette index that \<^verbatim>\<open>ppuRead\<close> and \<^verbatim>\<open>ppuWrite\<close> compute for an address in
  \<^verbatim>\<open>$3F00-$3FFF\<close>: \<^verbatim>\<open>p = (addr - 0x3F00) & 0x1F; if ((p & 0x13) == 0x10) p &= ~0x10\<close>.
\<close>

definition paletteIndex :: "u16 \<Rightarrow> u16" where
  "paletteIndex addr =
     (let q = (addr - 0x3F00) AND 0x1F
      in if q AND 0x13 = 0x10 then q AND NOT 0x10 else q)"

definition ppuRead :: "('c, 'a) hw \<Rightarrow> 'c \<Rightarrow> PPU \<Rightarrow> u16 \<Rightarrow> u8" where
  "ppuRead h c p addr0 =
     (let addr = addr0 AND 0x3FFF;
          m = cart_mirroring h c
      in if addr < 0x2000 then cart_ppuRead h c addr
         else if addr < 0x3F00 then vram p (mapNT addr m)
         else if addr < 0x4000 then
           (let q = (addr - 0x3F00) AND 0x1F;
                q' = (if q AND 0x13 = 0x10 then q AND NOT 0x10 else q)
            in palette p q' AND 0x3F)
         else 0)"

definition ppuWrite :: "('c, 'a) hw \<Rightarrow> 'c \<Rightarrow> PPU \<Rightarrow> u16 \<Rightarrow> u8 \<Rightarrow> 'c \<times> PPU" where
  "ppuWrite h c p addr0 val =
     (let addr = addr0 AND 0x3FFF;
          m = cart_mirroring h c
      in if addr < 0x2000 then (cart_ppuWrite h c addr val, p)
         else if addr < 0x3F00 then (c, p\<lparr>vram := (vram p)(mapNT addr m := val)\<rparr>)
         else if addr < 0x4000 then
           (let q = (addr - 0x3F00) AND 0x1F;
                q' = (if q AND 0x13 = 0x10 then q AND NOT 0x10 else q)
            in (c, p\<lparr>palette := (palette p)(q' := val)\<rparr>))
         else (c, p))"

definition cpuReadRegister :: "('c, 'a) hw \<Rightarrow> 'c \<Rightarrow> PPU \<Rightarrow> u16 \<Rightarrow> u8 \<times> PPU" where
  "cpuReadRegister h c p addr =
     (if addr AND 7 = 2 then
        (PPUSTATUS p,
         p\<lparr>PPUSTATUS := PPUSTATUS p AND NOT 0x80, addrLatch := False, nmi_occurred := False\<rparr>)
      else if addr AND 7 = 4 then (oam p (OAMADDR p), p)
      else if addr AND 7 = 7 then
        (let ret = vramReadBuffer p;
             buf = ppuRead h c p (ppu_v p);
             ret' = (if ppu_v p AND 0x3FFF \<ge> 0x3F00 then buf else ret)
         in (ret', p\<lparr>vramReadBuffer := buf,
                      ppu_v := (ppu_v p + incrementVRAMAddr p) AND 0x7FFF\<rparr>))
      else (0, p))"

definition cpuWriteRegister :: "('c, 'a) hw \<Rightarrow> 'c \<Rightarrow> PPU \<Rightarrow> u16 \<Rightarrow> u8 \<Rightarrow> 'c \<times> PPU" where
  "cpuWriteRegister h c p addr val =
     (if addr AND 7 = 0 then
        (c, p\<lparr>PPUCTRL := val,
               ppu_t := (ppu_t p AND 0xF3FF) OR push_bit 10 (ucast (val AND 3))\<rparr>)
      else if addr AND 7 = 1 then (c, p\<lparr>PPUMASK := val\<rparr>)
      else if addr AND 7 = 3 then (c, p\<lparr>OAMADDR := val\<rparr>)
      else if addr AND 7 = 4 then
        (c, p\<lparr>oam := (oam p)(OAMADDR p := val), OAMADDR := OAMADDR p + 1\<rparr>)
      else if addr AND 7 = 5 then
        (if \<not> addrLatch p then
           (c, p\<lparr>fineX := val AND 7,
                  ppu_t := (ppu_t p AND 0x7FE0) OR (ucast (drop_bit 3 val) AND 0x1F),
                  addrLatch := True\<rparr>)
         else
           (c, p\<lparr>ppu_t := (ppu_t p AND 0x0C1F) OR push_bit 12 (ucast (val AND 0x07))
                             OR push_bit 2 (ucast (val AND 0xF8)),
                  addrLatch := False\<rparr>))
      else if addr AND 7 = 6 then
        (if \<not> addrLatch p then
           (c, p\<lparr>ppu_t := (ppu_t p AND 0x00FF) OR push_bit 8 (ucast (val AND 0x3F)),
                  addrLatch := True\<rparr>)
         else
           (let t' = (ppu_t p AND 0x7F00) OR ucast val
            in (c, p\<lparr>ppu_t := t', ppu_v := t', addrLatch := False\<rparr>)))
      else if addr AND 7 = 7 then
        (let (c', p') = ppuWrite h c p (ppu_v p) val
         in (c', p'\<lparr>ppu_v := (ppu_v p' + incrementVRAMAddr p') AND 0x7FFF\<rparr>))
      else (c, p))"

definition setVBlank :: "PPU \<Rightarrow> PPU" where
  "setVBlank p = p\<lparr>PPUSTATUS := PPUSTATUS p OR 0x80, nmi_occurred := True\<rparr>"

definition clearVBlank :: "PPU \<Rightarrow> PPU" where
  "clearVBlank p = p\<lparr>PPUSTATUS := PPUSTATUS p AND NOT 0x80, nmi_occurred := False\<rparr>"


section \<open>Controller port (input.h)\<close>

record Input =
  shift1 :: u8
  strobe :: u8
  padState :: u8

definition setStrobe :: "Input \<Rightarrow> u8 \<Rightarrow> Input" where
  "setStrobe i v =
     (let i1 = i\<lparr>strobe := v AND 1\<rparr>
      in if strobe i1 \<noteq> 0 then i1\<lparr>shift1 := padState i1\<rparr> else i1)"

definition read4016 :: "Input \<Rightarrow> u8 \<times> Input" where
  "read4016 i =
     (let b = shift1 i AND 1;
          i1 = (if strobe i = 0 then i\<lparr>shift1 := drop_bit 1 (shift1 i) OR 0x80\<rparr> else i)
      in (b OR 0x40, i1))"

section \<open>CPU state and the bus (cpu.h, bus.h, bus.cpp)\<close>

record CPU =
  reg_A :: u8
  reg_X :: u8
  reg_Y :: u8
  reg_S :: u8
  reg_PC :: u16
  reg_P :: u8
  cycles :: u64
  pending_nmi :: bool
  pending_irq :: bool
  irq_delay :: int
  dma_stall_cycles :: int


text \<open>
  The session: the objects that \<^verbatim>\<open>NES::powerOn\<close> creates and wires to the bus, and
  the bus's 2 KiB of internal RAM (\<^verbatim>\<open>sysRAM\<close>, indexed by \<^verbatim>\<open>a & 0x07FF\<close>).
\<close>

record ('c, 'a) machine =
  cpu :: CPU
  ppu :: PPU
  sysRAM :: "u16 \<Rightarrow> u8"
  input :: Input
  cart :: 'c
  apu :: 'a

definition cpuRead :: "('c, 'a) hw \<Rightarrow> ('c, 'a) machine \<Rightarrow> u16 \<Rightarrow> u8 \<times> ('c, 'a) machine" where
  "cpuRead h s a =
     (if a < 0x2000 then (sysRAM s (a AND 0x07FF), s)
      else if a < 0x4000 then
        (let r = 0x2000 + (a AND 7);
             (b, p') = cpuReadRegister h (cart s) (ppu s) r
         in (b, s\<lparr>ppu := p'\<rparr>))
      else if a = 0x4015 then
        (let (b, a') = apu_cpuRead h (apu s) 0x4015 in (b, s\<lparr>apu := a'\<rparr>))
      else if a = 0x4016 then
        (let (b, i') = read4016 (input s) in (b, s\<lparr>input := i'\<rparr>))
      else if a = 0x4017 then (0x40, s)
      else if a \<ge> 0x4000 \<and> a \<le> 0x4017 then (0, s)
      else if a \<ge> 0x4020 then (cart_cpuRead h (cart s) a, s)
      else (0, s))"

text \<open>
  \<^verbatim>\<open>PPU::oamDMA\<close>. The callback \<^verbatim>\<open>fetch256\<close> may act on the whole session (the bus
  passes a lambda that calls \<^verbatim>\<open>cpuRead\<close>), so it takes and returns the session.
  \<^verbatim>\<open>start\<close> is read once, before the loop; iteration \<open>i\<close> calls the callback and then
  stores its result at \<^verbatim>\<open>oam[(uint8_t)(start + i)]\<close>.
\<close>

function oamDMA_loop ::
  "(('c, 'a) machine \<Rightarrow> u8 \<Rightarrow> u8 \<times> ('c, 'a) machine) \<Rightarrow> u8 \<Rightarrow> nat \<Rightarrow> ('c, 'a) machine
     \<Rightarrow> ('c, 'a) machine" where
  "oamDMA_loop fetch256 start i s =
     (if i < 256 then
        (let (b, s1) = fetch256 s (of_nat i);
             s2 = s1\<lparr>ppu := (ppu s1)\<lparr>oam := (oam (ppu s1))(start + of_nat i := b)\<rparr>\<rparr>
         in oamDMA_loop fetch256 start (Suc i) s2)
      else s)"
  by pat_completeness auto
termination
  by (relation "measure (\<lambda>(fetch256, start, i, s). 256 - i)") auto

declare oamDMA_loop.simps [simp del]

definition oamDMA ::
  "(('c, 'a) machine \<Rightarrow> u8 \<Rightarrow> u8 \<times> ('c, 'a) machine) \<Rightarrow> ('c, 'a) machine \<Rightarrow> ('c, 'a) machine" where
  "oamDMA fetch256 s = oamDMA_loop fetch256 (OAMADDR (ppu s)) 0 s"

definition cpuWrite :: "('c, 'a) hw \<Rightarrow> ('c, 'a) machine \<Rightarrow> u16 \<Rightarrow> u8 \<Rightarrow> ('c, 'a) machine" where
  "cpuWrite h s a v =
     (if a < 0x2000 then s\<lparr>sysRAM := (sysRAM s)(a AND 0x07FF := v)\<rparr>
      else if a < 0x4000 then
        (let r = 0x2000 + (a AND 7);
             (c', p') = cpuWriteRegister h (cart s) (ppu s) r v
         in s\<lparr>ppu := p', cart := c'\<rparr>)
      else if a = 0x4014 then
        (let base = (push_bit 8 (ucast v) :: u16);
             cpu_on_odd = (cycles (cpu s) AND 1 \<noteq> 0);
             s1 = s\<lparr>cpu := (cpu s)\<lparr>dma_stall_cycles :=
                     dma_stall_cycles (cpu s) + 513 + (if cpu_on_odd then 1 else 0)\<rparr>\<rparr>
         in oamDMA (\<lambda>s' i. cpuRead h s' (base + ucast i)) s1)
      else if a = 0x4016 then s\<lparr>input := setStrobe (input s) v\<rparr>
      else if a \<ge> 0x4000 \<and> a \<le> 0x4017 then s\<lparr>apu := apu_cpuWrite h (apu s) a v\<rparr>
      else if a \<ge> 0x4020 then s\<lparr>cart := cart_cpuWrite h (cart s) a v\<rparr>
      else s)"

text \<open>
  The \<^verbatim>\<open>$4014\<close> branch of \<^verbatim>\<open>Bus::cpuWrite\<close>, one transfer at a time. \<open>dma_begin\<close> is the
  statement before the call of \<^verbatim>\<open>ppu->oamDMA\<close> (the stall is charged first);
  \<open>dma_upto h base start n s\<close> is the session after the first \<open>n\<close> iterations of the loop
  of \<^verbatim>\<open>PPU::oamDMA\<close>: iteration \<open>i\<close> performs the bus read \<^verbatim>\<open>cpuRead(base + i)\<close>, with
  whatever side effect that read has, and stores the byte at \<^verbatim>\<open>oam[(uint8_t)(start + i)]\<close>.
\<close>

definition dma_begin :: "('c, 'a) machine \<Rightarrow> ('c, 'a) machine" where
  "dma_begin s = s\<lparr>cpu := (cpu s)\<lparr>dma_stall_cycles := dma_stall_cycles (cpu s) + 513 +
                      (if cycles (cpu s) AND 1 \<noteq> 0 then 1 else 0)\<rparr>\<rparr>"

primrec dma_upto ::
  "('c, 'a) hw \<Rightarrow> u16 \<Rightarrow> u8 \<Rightarrow> nat \<Rightarrow> ('c, 'a) machine \<Rightarrow> ('c, 'a) machine" where
  "dma_upto h base start 0 s = s"
| "dma_upto h base start (Suc i) s =
     (let s0 = dma_upto h base start i s;
          (b, s1) = cpuRead h s0 (base + of_nat i)
      in s1\<lparr>ppu := (ppu s1)\<lparr>oam := (oam (ppu s1))(start + of_nat i := b)\<rparr>\<rparr>)"

definition mapperIRQ :: "('c, 'a) hw \<Rightarrow> ('c, 'a) machine \<Rightarrow> bool" where
  "mapperIRQ h s = cart_irqPending h (cart s)"

definition mapperIRQAck :: "('c, 'a) hw \<Rightarrow> ('c, 'a) machine \<Rightarrow> ('c, 'a) machine" where
  "mapperIRQAck h s = s\<lparr>cart := cart_irqAck h (cart s)\<rparr>"

definition apuIRQ :: "('c, 'a) hw \<Rightarrow> ('c, 'a) machine \<Rightarrow> bool" where
  "apuIRQ h s = apu_irqLine h (apu s)"

section \<open>CPU (cpu.cpp)\<close>

datatype Flag = Flag_C | Flag_Z | Flag_I | Flag_D | Flag_B | Flag_U | Flag_V | Flag_N

fun flag_bit :: "Flag \<Rightarrow> nat" where
  "flag_bit Flag_C = 0"
| "flag_bit Flag_Z = 1"
| "flag_bit Flag_I = 2"
| "flag_bit Flag_D = 3"
| "flag_bit Flag_B = 4"
| "flag_bit Flag_U = 5"
| "flag_bit Flag_V = 6"
| "flag_bit Flag_N = 7"

definition getf :: "CPU \<Rightarrow> Flag \<Rightarrow> bool" where
  "getf c f = (drop_bit (flag_bit f) (reg_P c) AND 1 \<noteq> 0)"

definition setf :: "CPU \<Rightarrow> Flag \<Rightarrow> bool \<Rightarrow> CPU" where
  "setf c f b =
     (if b then c\<lparr>reg_P := reg_P c OR push_bit (flag_bit f) 1\<rparr>
      else c\<lparr>reg_P := reg_P c AND NOT (push_bit (flag_bit f) 1)\<rparr>)"

definition setZN8 :: "CPU \<Rightarrow> u8 \<Rightarrow> CPU" where
  "setZN8 c x = setf (setf c Flag_Z (x = 0)) Flag_N (x AND 0x80 \<noteq> 0)"

definition rd :: "('c, 'a) hw \<Rightarrow> ('c, 'a) machine \<Rightarrow> u16 \<Rightarrow> u8 \<times> ('c, 'a) machine" where
  "rd h s a = cpuRead h s a"

definition wr :: "('c, 'a) hw \<Rightarrow> ('c, 'a) machine \<Rightarrow> u16 \<Rightarrow> u8 \<Rightarrow> ('c, 'a) machine" where
  "wr h s a v = cpuWrite h s a v"

definition push8 :: "('c, 'a) hw \<Rightarrow> ('c, 'a) machine \<Rightarrow> u8 \<Rightarrow> ('c, 'a) machine" where
  "push8 h s v =
     (let s1 = wr h s (0x0100 OR ucast (reg_S (cpu s))) v
      in s1\<lparr>cpu := (cpu s1)\<lparr>reg_S := reg_S (cpu s1) - 1\<rparr>\<rparr>)"

definition pull8 :: "('c, 'a) hw \<Rightarrow> ('c, 'a) machine \<Rightarrow> u8 \<times> ('c, 'a) machine" where
  "pull8 h s =
     (let s1 = s\<lparr>cpu := (cpu s)\<lparr>reg_S := reg_S (cpu s) + 1\<rparr>\<rparr>
      in rd h s1 (0x0100 OR ucast (reg_S (cpu s1))))"


definition nmi :: "CPU \<Rightarrow> CPU" where
  "nmi c = c\<lparr>pending_nmi := True\<rparr>"

definition irq :: "CPU \<Rightarrow> CPU" where
  "irq c = c\<lparr>pending_irq := True\<rparr>"

text \<open>\<^verbatim>\<open>fetch8\<close> is \<^verbatim>\<open>rd(PC++)\<close>: the increment takes effect before the bus is called.\<close>

definition fetch8 :: "('c, 'a) hw \<Rightarrow> ('c, 'a) machine \<Rightarrow> u8 \<times> ('c, 'a) machine" where
  "fetch8 h s =
     (let a = reg_PC (cpu s);
          s1 = s\<lparr>cpu := (cpu s)\<lparr>reg_PC := a + 1\<rparr>\<rparr>
      in rd h s1 a)"

text \<open>
  The \<^verbatim>\<open>branch\<close> lambda of \<^verbatim>\<open>exec\<close>. \<^verbatim>\<open>off\<close> is an \<^verbatim>\<open>int8_t\<close>: \<open>scast\<close> extends its
  sign to 16 bits before the addition.
\<close>

definition branch :: "('c, 'a) hw \<Rightarrow> ('c, 'a) machine \<Rightarrow> bool \<Rightarrow> int \<times> ('c, 'a) machine" where
  "branch h s cond =
     (let (off, s1) = fetch8 h s
      in if cond then
           (let old = reg_PC (cpu s1);
                new = old + scast off;
                s2 = s1\<lparr>cpu := (cpu s1)\<lparr>reg_PC := new\<rparr>\<rparr>
            in (if old AND 0xFF00 \<noteq> new AND 0xFF00 then 4 else 3, s2))
         else (2, s1))"

definition on_cpu :: "(CPU \<Rightarrow> CPU) \<Rightarrow> ('c, 'a) machine \<Rightarrow> ('c, 'a) machine" where
  "on_cpu f s = s\<lparr>cpu := f (cpu s)\<rparr>"

text \<open>
  \<^verbatim>\<open>exec\<close>, for the opcodes of its sections ``Branches'' and ``Stack and Flags''
  (without BRK and RTI) and for NOP \<^verbatim>\<open>$EA\<close>. Every other opcode is \<open>None\<close> here: not
  modelled, which is different from the source's \<^verbatim>\<open>default\<close> case.
\<close>

definition exec :: "('c, 'a) hw \<Rightarrow> ('c, 'a) machine \<Rightarrow> u8 \<Rightarrow> (int \<times> ('c, 'a) machine) option" where
  "exec h s op =
     (if op = 0x90 then Some (branch h s (\<not> getf (cpu s) Flag_C))
      else if op = 0xB0 then Some (branch h s (getf (cpu s) Flag_C))
      else if op = 0xF0 then Some (branch h s (getf (cpu s) Flag_Z))
      else if op = 0x30 then Some (branch h s (getf (cpu s) Flag_N))
      else if op = 0xD0 then Some (branch h s (\<not> getf (cpu s) Flag_Z))
      else if op = 0x10 then Some (branch h s (\<not> getf (cpu s) Flag_N))
      else if op = 0x50 then Some (branch h s (\<not> getf (cpu s) Flag_V))
      else if op = 0x70 then Some (branch h s (getf (cpu s) Flag_V))
      else if op = 0x48 then Some (3, push8 h s (reg_A (cpu s)))
      else if op = 0x68 then
        (let (x, s1) = pull8 h s
         in Some (4, on_cpu (\<lambda>c. setZN8 (c\<lparr>reg_A := x\<rparr>) x) s1))
      else if op = 0x08 then Some (3, push8 h s (reg_P (cpu s) OR 0x10))
      else if op = 0x28 then
        (let (x, s1) = pull8 h s
         in Some (4, on_cpu (\<lambda>c. let c1 = c\<lparr>reg_P := (x AND NOT 0x10) OR 0x20\<rparr>;
                                       c2 = c1\<lparr>irq_delay := 1\<rparr>
                                   in setZN8 c2 (reg_A c2)) s1))
      else if op = 0x18 then Some (2, on_cpu (\<lambda>c. setf c Flag_C False) s)
      else if op = 0x38 then Some (2, on_cpu (\<lambda>c. setf c Flag_C True) s)
      else if op = 0x58 then Some (2, on_cpu (\<lambda>c. (setf c Flag_I False)\<lparr>irq_delay := 1\<rparr>) s)
      else if op = 0x78 then Some (2, on_cpu (\<lambda>c. (setf c Flag_I True)\<lparr>irq_delay := 1\<rparr>) s)
      else if op = 0xB8 then Some (2, on_cpu (\<lambda>c. setf c Flag_V False) s)
      else if op = 0xD8 then Some (2, on_cpu (\<lambda>c. setf c Flag_D False) s)
      else if op = 0xF8 then Some (2, on_cpu (\<lambda>c. setf c Flag_D True) s)
      else if op = 0xEA then Some (2, s)
      else None)"

text \<open>
  \<^verbatim>\<open>interrupt\<close> is the sequence that the NMI and the IRQ branch of \<^verbatim>\<open>step\<close> share:
  push PC high, PC low and P with B clear, set I, load PC from the vector.
\<close>

definition interrupt :: "('c, 'a) hw \<Rightarrow> ('c, 'a) machine \<Rightarrow> u16 \<Rightarrow> ('c, 'a) machine" where
  "interrupt h s vec =
     (let ret = reg_PC (cpu s);
          s1 = push8 h s (ucast (drop_bit 8 ret AND 0xFF));
          s2 = push8 h s1 (ucast (ret AND 0xFF));
          s3 = push8 h s2 (reg_P (cpu s2) AND NOT 0x10);
          s4 = on_cpu (\<lambda>c. setf c Flag_I True) s3;
          (lo, s5) = rd h s4 vec;
          (hi, s6) = rd h s5 (vec + 1)
      in on_cpu (\<lambda>c. c\<lparr>reg_PC := ucast lo OR push_bit 8 (ucast hi)\<rparr>) s6)"

definition step :: "('c, 'a) hw \<Rightarrow> ('c, 'a) machine \<Rightarrow> (int \<times> ('c, 'a) machine) option" where
  "step h s =
     (if dma_stall_cycles (cpu s) \<noteq> 0 then
        Some (1, on_cpu (\<lambda>c. c\<lparr>dma_stall_cycles := dma_stall_cycles c - 1,
                                cycles := cycles c + 1\<rparr>) s)
      else
        let suppress_irq = (irq_delay (cpu s) \<noteq> 0);
            s1 = (if irq_delay (cpu s) \<noteq> 0 then on_cpu (\<lambda>c. c\<lparr>irq_delay := 0\<rparr>) s else s);
            s2 = (if \<not> suppress_irq then
                    (let sa = (if mapperIRQ h s1 \<and> \<not> getf (cpu s1) Flag_I
                               then on_cpu (\<lambda>c. c\<lparr>pending_irq := True\<rparr>) s1 else s1)
                     in if apuIRQ h sa \<and> \<not> getf (cpu sa) Flag_I
                        then on_cpu (\<lambda>c. c\<lparr>pending_irq := True\<rparr>) sa else sa)
                  else s1)
        in if pending_nmi (cpu s2) then
             (let s3 = on_cpu (\<lambda>c. c\<lparr>pending_nmi := False\<rparr>) s2;
                  s4 = interrupt h s3 0xFFFA
              in Some (7, on_cpu (\<lambda>c. c\<lparr>cycles := cycles c + 7\<rparr>) s4))
           else if pending_irq (cpu s2) \<and> \<not> getf (cpu s2) Flag_I then
             (let s3 = on_cpu (\<lambda>c. c\<lparr>pending_irq := False\<rparr>) s2;
                  s4 = interrupt h s3 0xFFFE;
                  s5 = mapperIRQAck h s4
              in Some (7, on_cpu (\<lambda>c. c\<lparr>cycles := cycles c + 7\<rparr>) s5))
           else
             (let (opcode, s3) = fetch8 h s2
              in case exec h s3 opcode of
                   None \<Rightarrow> None
                 | Some (n, s4) \<Rightarrow> Some (n, on_cpu (\<lambda>c. c\<lparr>cycles := cycles c + of_int n\<rparr>) s4)))"


section \<open>Sprite evaluation (ppu.cpp)\<close>

definition spriteHeight :: "PPU \<Rightarrow> int" where
  "spriteHeight p = (if PPUCTRL p AND 0x20 \<noteq> 0 then 16 else 8)"

text \<open>
  The test in the loop of \<^verbatim>\<open>evaluateSpritesWindow\<close>, for sprite \<open>i\<close>:
  \<^verbatim>\<open>scanline >= top && scanline < top + sprH\<close> with \<^verbatim>\<open>top = (int)oam[i*4] + 1\<close>.
\<close>

definition spriteInRange :: "PPU \<Rightarrow> nat \<Rightarrow> bool" where
  "spriteInRange p i =
     (let y = oam p (of_nat (i * 4 + 0));
          top = uint y + 1
      in scanline p \<ge> top \<and> scanline p < top + spriteHeight p)"

text \<open>\<^verbatim>\<open>memcpy(&secOAM[found * 4], &oam[i * 4], 4)\<close>.\<close>

definition copySprite :: "PPU \<Rightarrow> u8 list \<Rightarrow> nat \<Rightarrow> nat \<Rightarrow> u8 list" where
  "copySprite p sec found i =
     sec[found * 4 := oam p (of_nat (i * 4)),
         found * 4 + 1 := oam p (of_nat (i * 4 + 1)),
         found * 4 + 2 := oam p (of_nat (i * 4 + 2)),
         found * 4 + 3 := oam p (of_nat (i * 4 + 3))]"

function spriteScan :: "PPU \<Rightarrow> nat \<Rightarrow> nat \<Rightarrow> u8 list \<Rightarrow> nat \<times> u8 list" where
  "spriteScan p i found sec =
     (if i < 64 \<and> found < 8 then
        (if spriteInRange p i then spriteScan p (Suc i) (Suc found) (copySprite p sec found i)
         else spriteScan p (Suc i) found sec)
      else (found, sec))"
  by pat_completeness auto
termination
  by (relation "measure (\<lambda>(p, i, found, sec). 64 - i)") auto

declare spriteScan.simps [simp del]

definition evaluateSpritesWindow :: "PPU \<Rightarrow> PPU" where
  "evaluateSpritesWindow p =
     (if scanline p < 0 \<or> scanline p \<ge> 240 then p
      else
        let p1 = (if secCount p = 0 then p\<lparr>secOAM := replicate 32 0xFF\<rparr> else p);
            (found, sec) = spriteScan p1 0 0 (secOAM p1);
            p2 = p1\<lparr>secOAM := sec, secCount := int found\<rparr>
        in if found \<ge> 8 then p2\<lparr>PPUSTATUS := PPUSTATUS p2 OR 0x20\<rparr> else p2)"

text \<open>
  What \<^verbatim>\<open>tick\<close> does for sprites at dot 65 of a visible line: clear secondary OAM, the
  count and the overflow flag, then evaluate.
\<close>

definition tickDot65 :: "PPU \<Rightarrow> PPU" where
  "tickDot65 p =
     evaluateSpritesWindow
       (p\<lparr>secCount := 0, secOAM := replicate 32 0xFF, PPUSTATUS := PPUSTATUS p AND NOT 0x20\<rparr>)"

text \<open>The number of sprites of primary OAM whose rows cover the scanline.\<close>

definition spritesOnLine :: "PPU \<Rightarrow> nat" where
  "spritesOnLine p = length (filter (spriteInRange p) [0..<64])"

section \<open>Timing, vblank and the NMI edge detector (ppu.cpp, nes.cpp)\<close>

text \<open>
  \<^verbatim>\<open>PPU::tick\<close> interleaves rendering with the advance of \<^verbatim>\<open>(scanline, dot)\<close> and
  the vblank flag. The rendering statements write the shifters, latches, line buffers,
  secondary OAM, \<^verbatim>\<open>v\<close>, bits 5 and 6 of PPUSTATUS, the frame buffer and the mapper;
  they write none of \<^verbatim>\<open>scanline\<close>, \<^verbatim>\<open>dot\<close>, \<^verbatim>\<open>frame_odd\<close>, \<^verbatim>\<open>nmi_occurred\<close>,
  PPUCTRL, PPUMASK. \<open>nmi_view\<close> is the PPU state restricted to these six fields, and
  \<open>vw_tick\<close> is \<^verbatim>\<open>tick\<close> restricted to the statements that read or write them: the
  odd-frame skip at (261, 339), \<^verbatim>\<open>dot++\<close>, \<^verbatim>\<open>setVBlank\<close> at (241, 1), the wrap of
  the dot and the scanline, and \<^verbatim>\<open>clearVBlank\<close> in \<^verbatim>\<open>startScanline\<close> on entering
  line 261.
\<close>

record nmi_view =
  vw_PPUCTRL :: u8
  vw_PPUMASK :: u8
  vw_nmi_occurred :: bool
  vw_scanline :: int
  vw_dot :: int
  vw_frame_odd :: bool

definition ppu_view :: "PPU \<Rightarrow> nmi_view" where
  "ppu_view p = \<lparr>vw_PPUCTRL = PPUCTRL p, vw_PPUMASK = PPUMASK p,
     vw_nmi_occurred = nmi_occurred p, vw_scanline = scanline p, vw_dot = dot p,
     vw_frame_odd = frame_odd p\<rparr>"

definition vw_nmi_output :: "nmi_view \<Rightarrow> bool" where
  "vw_nmi_output v = (vw_PPUCTRL v AND 0x80 \<noteq> 0)"

definition vw_renderingEnabled :: "nmi_view \<Rightarrow> bool" where
  "vw_renderingEnabled v = (vw_PPUMASK v AND 0x18 \<noteq> 0)"

definition vw_startScanline :: "nmi_view \<Rightarrow> nmi_view" where
  "vw_startScanline v = (if vw_scanline v = 261 then v\<lparr>vw_nmi_occurred := False\<rparr> else v)"

definition vw_tick :: "nmi_view \<Rightarrow> nmi_view" where
  "vw_tick v =
     (if vw_scanline v = 261 \<and> vw_renderingEnabled v \<and> vw_frame_odd v \<and> vw_dot v = 339
      then vw_startScanline (v\<lparr>vw_dot := 0, vw_scanline := 0\<rparr>)
      else
        let v1 = v\<lparr>vw_dot := vw_dot v + 1\<rparr>;
            v2 = (if vw_scanline v1 = 241 \<and> vw_dot v1 = 1
                  then v1\<lparr>vw_nmi_occurred := True\<rparr> else v1)
        in if vw_dot v2 > 340 then
             (let v3 = v2\<lparr>vw_dot := 0, vw_scanline := vw_scanline v2 + 1\<rparr>;
                  v4 = (if vw_scanline v3 > 261
                        then v3\<lparr>vw_scanline := 0, vw_frame_odd := \<not> vw_frame_odd v3\<rparr>
                        else v3)
              in vw_startScanline v4)
           else v2)"

text \<open>
  \<open>enters_vblank v\<close>: the tick from \<open>v\<close> executes \<^verbatim>\<open>setVBlank\<close>, that is, it moves
  the PPU to (241, 1).
\<close>

definition enters_vblank :: "nmi_view \<Rightarrow> bool" where
  "enters_vblank v = (vw_scanline v = 241 \<and> vw_dot v = 0)"

text \<open>
  The CPU's accesses to the PPU that reach the view: a read of \<^verbatim>\<open>$2002\<close> clears
  \<^verbatim>\<open>nmi_occurred\<close>, a write of \<^verbatim>\<open>$2000\<close> or \<^verbatim>\<open>$2001\<close> replaces PPUCTRL or PPUMASK.
  \<open>ppu_view_cpuReadRegister\<close> and \<open>ppu_view_cpuWriteRegister\<close> below show that this is
  what the register file does to the six fields, and that no other register access
  changes them.
\<close>

datatype ppu_access = Read2002 | Write2000 u8 | Write2001 u8

fun vw_access :: "nmi_view \<Rightarrow> ppu_access \<Rightarrow> nmi_view" where
  "vw_access v Read2002 = v\<lparr>vw_nmi_occurred := False\<rparr>"
| "vw_access v (Write2000 val) = v\<lparr>vw_PPUCTRL := val\<rparr>"
| "vw_access v (Write2001 val) = v\<lparr>vw_PPUMASK := val\<rparr>"

text \<open>
  The scheduler (\<^verbatim>\<open>NES::runFrame\<close>). \<open>nmiLinePrev\<close> is the session's field. The three
  counters are history variables: \<open>nmi_calls\<close> counts the calls of \<^verbatim>\<open>cpu->nmi()\<close>,
  \<open>vblank_entries\<close> the ticks that executed \<^verbatim>\<open>setVBlank\<close>, \<open>enable_raises\<close> the writes
  of \<^verbatim>\<open>$2000\<close> that changed bit 7 of PPUCTRL from 0 to 1. Nothing reads them.
\<close>

record sched =
  view :: nmi_view
  nmiLinePrev :: bool
  nmi_calls :: nat
  vblank_entries :: nat
  enable_raises :: nat

definition nmiLevel :: "nmi_view \<Rightarrow> bool" where
  "nmiLevel v = (vw_nmi_occurred v \<and> vw_nmi_output v)"

text \<open>One pass of the inner \<^verbatim>\<open>for\<close> loop: \<^verbatim>\<open>ppu->tick()\<close>, then the edge detector.\<close>

definition tick_poll :: "sched \<Rightarrow> sched" where
  "tick_poll s =
     (let s1 = s\<lparr>view := vw_tick (view s),
                 vblank_entries := vblank_entries s + (if enters_vblank (view s) then 1 else 0)\<rparr>;
          lvl = nmiLevel (view s1);
          s2 = (if lvl \<and> \<not> nmiLinePrev s1 then s1\<lparr>nmi_calls := nmi_calls s1 + 1\<rparr> else s1)
      in s2\<lparr>nmiLinePrev := lvl\<rparr>)"

definition cpu_access :: "sched \<Rightarrow> ppu_access \<Rightarrow> sched" where
  "cpu_access s a =
     s\<lparr>view := vw_access (view s) a,
       enable_raises := enable_raises s +
         (case a of Write2000 val \<Rightarrow>
            (if \<not> vw_nmi_output (view s) \<and> val AND 0x80 \<noteq> 0 then 1 else 0)
          | _ \<Rightarrow> 0)\<rparr>"

text \<open>
  One pass of the \<^verbatim>\<open>while\<close> loop of \<^verbatim>\<open>runFrame\<close>: \<^verbatim>\<open>cpu->step()\<close> performs some
  accesses to the PPU registers and returns \<open>cpuCycles\<close>; then the PPU runs
  \<open>3 * cpuCycles\<close> ticks, each followed by the edge detector. (The APU ticks in between
  reach neither the PPU nor \<open>nmiLinePrev\<close>.) A run is a sequence of such passes; the CPU
  is any source of accesses and cycle counts.
\<close>

definition sched_step :: "sched \<Rightarrow> ppu_access list \<times> nat \<Rightarrow> sched" where
  "sched_step s it = (tick_poll ^^ (3 * snd it)) (foldl cpu_access s (fst it))"

definition sched_run :: "sched \<Rightarrow> (ppu_access list \<times> nat) list \<Rightarrow> sched" where
  "sched_run s its = foldl sched_step s its"

text \<open>
  \<open>edge_owed s\<close>: the level is high and the detector has not seen it yet, so the next
  poll will post an NMI.
\<close>

definition edge_owed :: "sched \<Rightarrow> bool" where
  "edge_owed s = (nmiLevel (view s) \<and> \<not> nmiLinePrev s)"

text \<open>
  \<open>budget\<close> is the proof's measure: vblank entries plus raises of the enable bit, minus
  the NMIs posted and the one that is owed.
\<close>

definition budget :: "sched \<Rightarrow> int" where
  "budget s = int (vblank_entries s) + int (enable_raises s) - int (nmi_calls s)
                - (if edge_owed s then 1 else 0)"

section \<open>Closed examples\<close>

definition nrom_demo :: MapperNROM where
  "nrom_demo = \<lparr>nrom_prg = replicate 0xFE 0 @ [0xF0, 0x02] @ replicate 0x7EFC 0 @ [0x34, 0x12, 0, 0],
     nrom_chr = replicate 0x2000 0, hasChrRam = False, nrom_mir = 0\<rparr>"

definition ppu_demo :: PPU where
  "ppu_demo = \<lparr>vram = (\<lambda>a. 0), oam = (\<lambda>a. 0xFF), secOAM = replicate 32 0, secCount = 0,
     palette = (\<lambda>a. 0), PPUCTRL = 0, PPUMASK = 0, PPUSTATUS = 0, OAMADDR = 0,
     ppu_v = 0, ppu_t = 0, fineX = 0, addrLatch = False, vramReadBuffer = 0,
     scanline = 261, dot = 0, frame_odd = False, nmi_occurred = False\<rparr>"

text \<open>A PPU whose address register points at the palette.\<close>

definition ppu_pal_demo :: PPU where
  "ppu_pal_demo = ppu_demo\<lparr>ppu_v := 0x3F00, vram := (\<lambda>a. 0x55), palette := (\<lambda>a. 0x0F)\<rparr>"

text \<open>
  A PPU on scanline 1 with sprites 0 to 7 at \<open>Y = 0\<close> (rows 1 to 8) and sprites 8 to 63
  at \<open>Y = $FF\<close> (off screen): exactly 8 sprites on the line.
\<close>

definition ppu_eight_demo :: PPU where
  "ppu_eight_demo = ppu_demo\<lparr>scanline := 1, oam := (\<lambda>a. if a < 32 then 0 else 0xFF)\<rparr>"

text \<open>The scheduler at (241, 0), one tick before vblank, with NMI enabled in PPUCTRL.\<close>

definition nmi_demo :: sched where
  "nmi_demo = \<lparr>view = \<lparr>vw_PPUCTRL = 0x80, vw_PPUMASK = 0, vw_nmi_occurred = False,
                       vw_scanline = 241, vw_dot = 0, vw_frame_odd = False\<rparr>,
     nmiLinePrev = False, nmi_calls = 0, vblank_entries = 0, enable_raises = 0\<rparr>"

definition cpu_demo :: CPU where
  "cpu_demo = \<lparr>reg_A = 0, reg_X = 0, reg_Y = 0, reg_S = 0xFD, reg_PC = 0xC000, reg_P = 0x24,
     cycles = 0, pending_nmi = False, pending_irq = False, irq_delay = 0,
     dma_stall_cycles = 0\<rparr>"

definition machine_demo :: "(MapperNROM, unit) machine" where
  "machine_demo = \<lparr>cpu = cpu_demo, ppu = ppu_demo, sysRAM = (\<lambda>a. 0),
     input = \<lparr>shift1 = 0, strobe = 0, padState = 0\<rparr>, cart = nrom_demo, apu = ()\<rparr>"

text \<open>The demo machine about to execute \<^verbatim>\<open>BEQ $+4\<close> at \<^verbatim>\<open>$80FE\<close> with Z (and I) set.\<close>

definition beq_demo :: "(MapperNROM, unit) machine" where
  "beq_demo = machine_demo\<lparr>cpu := cpu_demo\<lparr>reg_PC := 0x80FE, reg_P := 0x26\<rparr>\<rparr>"

text \<open>The demo machine in vertical blank: bit 7 of PPUSTATUS is set.\<close>

definition vblank_demo :: "(MapperNROM, unit) machine" where
  "vblank_demo = machine_demo\<lparr>ppu := ppu_demo\<lparr>PPUSTATUS := 0x80, nmi_occurred := True\<rparr>\<rparr>"


section \<open>MMC3: the scanline counter\<close>

lemma a12_feed_append: "a12_feed m (xs @ ys) = a12_feed (a12_feed m xs) ys"
  by (induction xs arbitrary: m) auto

lemma a12_feed_lows:
  "0 < n \<Longrightarrow> \<exists>c. min (a12LowCycles m + int n) 64 \<le> c \<and>
     a12_feed m (replicate n False) = m\<lparr>a12LowCycles := c, prevA12 := False\<rparr>"
proof (induction n arbitrary: m)
  case 0
  then show ?case by simp
next
  case (Suc n)
  let ?m1 = "ppuA12Clock m False"
  show ?case
  proof (cases "n = 0")
    case True
    then show ?thesis
      by (auto simp: ppuA12Clock_def Let_def intro!: exI[of _ "if a12LowCycles m < 64 then a12LowCycles m + 1 else a12LowCycles m"])
  next
    case False
    then obtain c where c: "min (a12LowCycles ?m1 + int n) 64 \<le> c"
      and eq: "a12_feed ?m1 (replicate n False) = ?m1\<lparr>a12LowCycles := c, prevA12 := False\<rparr>"
      using Suc.IH[of ?m1] by auto
    have "min (a12LowCycles m + int (Suc n)) 64 \<le> c"
      using c by (auto simp: ppuA12Clock_def Let_def split: if_splits)
    moreover have "a12_feed m (replicate (Suc n) False) = m\<lparr>a12LowCycles := c, prevA12 := False\<rparr>"
      using eq by (simp add: ppuA12Clock_def Let_def)
    ultimately show ?thesis by blast
  qed
qed

lemma ppuA12Clock_held:
  "ppuA12Clock (m\<lparr>a12LowCycles := 0, prevA12 := True\<rparr>) True = m\<lparr>a12LowCycles := 0, prevA12 := True\<rparr>"
  by (simp add: ppuA12Clock_def Let_def)

lemma a12_feed_highs_held:
  "a12_feed (m\<lparr>a12LowCycles := 0, prevA12 := True\<rparr>) (replicate k True)
     = m\<lparr>a12LowCycles := 0, prevA12 := True\<rparr>"
  by (induction k) (simp_all add: ppuA12Clock_held)

lemma ppuA12Clock_rise:
  "\<not> prevA12 m \<Longrightarrow> 8 \<le> a12LowCycles m \<Longrightarrow> ppuA12Clock m True = valid_rise m"
  by (simp add: ppuA12Clock_def valid_rise_def Let_def)

lemma clockIRQ_filter:
  "clockIRQ (m\<lparr>a12LowCycles := c, prevA12 := b\<rparr>)
     = (clockIRQ m)\<lparr>a12LowCycles := c, prevA12 := b\<rparr>"
  by (cases "irqReload m"; cases "irqCounter m = 0"; cases "irqLatch m = 0";
      cases "irqEnable m"; cases "irqCounter m - 1 = 0")
     (simp_all add: clockIRQ_def Let_def)

lemma valid_rise_ignores_filter:
  "valid_rise (m\<lparr>a12LowCycles := c, prevA12 := b\<rparr>) = valid_rise m"
  by (simp add: valid_rise_def clockIRQ_filter)

lemma valid_rise_held:
  "(valid_rise m)\<lparr>a12LowCycles := 0, prevA12 := True\<rparr> = valid_rise m"
  by (simp add: valid_rise_def)

lemma a12_feed_pulse:
  assumes lo: "8 \<le> lo" and hi: "1 \<le> hi" and c0: "0 \<le> a12LowCycles m"
  shows "a12_feed m (a12_pulse lo hi) = valid_rise m"
proof -
  from lo have "0 < lo" by simp
  then obtain c where c: "min (a12LowCycles m + int lo) 64 \<le> c"
    and lows: "a12_feed m (replicate lo False) = m\<lparr>a12LowCycles := c, prevA12 := False\<rparr>"
    using a12_feed_lows[of lo m] by blast
  from c lo c0 have c8: "8 \<le> c" by auto
  from hi obtain k where k: "hi = Suc k" by (cases hi) auto
  let ?m1 = "m\<lparr>a12LowCycles := c, prevA12 := False\<rparr>"
  have rise: "ppuA12Clock ?m1 True = valid_rise m"
    using ppuA12Clock_rise[of ?m1] c8 by (simp add: valid_rise_ignores_filter)
  have "a12_feed m (a12_pulse lo hi) = a12_feed ?m1 (replicate hi True)"
    by (simp add: a12_pulse_def a12_feed_append lows)
  also have "\<dots> = a12_feed (valid_rise m) (replicate k True)"
    by (simp add: k rise)
  also have "\<dots> = valid_rise m"
    using a12_feed_highs_held[of "valid_rise m" k] by (simp add: valid_rise_held)
  finally show ?thesis .
qed

lemma a12LowCycles_valid_rise: "a12LowCycles (valid_rise m) = 0"
  by (simp add: valid_rise_def)

lemma a12_feed_pulses:
  "valid_edges ps \<Longrightarrow> 0 \<le> a12LowCycles m \<Longrightarrow>
     a12_feed m (a12_pulses ps) = (valid_rise ^^ length ps) m"
proof (induction ps arbitrary: m)
  case Nil
  then show ?case by simp
next
  case (Cons p ps)
  obtain lo hi where p: "p = (lo, hi)" by (cases p)
  from Cons.prems p have v: "8 \<le> lo" "1 \<le> hi" "valid_edges ps" by auto
  have "a12_feed m (a12_pulses (p # ps)) = a12_feed (valid_rise m) (a12_pulses ps)"
    using v Cons.prems(2) by (simp add: p a12_feed_append a12_feed_pulse)
  also have "\<dots> = (valid_rise ^^ length ps) (valid_rise m)"
    using Cons.IH[of "valid_rise m"] v by (simp add: a12LowCycles_valid_rise)
  finally show ?case by (simp add: funpow_swap1)
qed

lemma irqFlag_valid_rise: "irqFlag m \<Longrightarrow> irqFlag (valid_rise m)"
  by (simp add: valid_rise_def clockIRQ_def Let_def)

lemma irqFlag_valid_rises: "irqFlag m \<Longrightarrow> irqFlag ((valid_rise ^^ k) m)"
  by (induction k) (simp_all add: irqFlag_valid_rise)

lemma valid_rise_reload:
  "irqReload m \<Longrightarrow> irqLatch m \<noteq> 0 \<Longrightarrow> \<not> irqFlag m \<Longrightarrow>
     irqCounter (valid_rise m) = irqLatch m \<and> \<not> irqReload (valid_rise m) \<and>
     \<not> irqFlag (valid_rise m) \<and> irqLatch (valid_rise m) = irqLatch m \<and>
     irqEnable (valid_rise m) = irqEnable m"
  by (simp add: valid_rise_def clockIRQ_def Let_def)

lemma valid_rise_count:
  "\<not> irqReload m \<Longrightarrow> irqCounter m \<noteq> 0 \<Longrightarrow>
     irqCounter (valid_rise m) = irqCounter m - 1 \<and> \<not> irqReload (valid_rise m) \<and>
     irqFlag (valid_rise m) = (irqFlag m \<or> (irqCounter m = 1 \<and> irqEnable m)) \<and>
     irqLatch (valid_rise m) = irqLatch m \<and> irqEnable (valid_rise m) = irqEnable m"
  by (auto simp: valid_rise_def clockIRQ_def Let_def)

text \<open>After the reload edge, the counter steps down once per valid edge.\<close>

lemma u8_sub_of_nat:
  fixes c :: u8
  assumes "k < unat c"
  shows "c - of_nat k \<noteq> 0" and "(c - of_nat k = 1) = (unat c = Suc k)"
proof -
  have c256: "unat c < 256" using unsigned_less[of c] by simp
  with assms have k: "unat (of_nat k :: u8) = k" by (simp add: unat_of_nat)
  then have le: "(of_nat k :: u8) \<le> c" using assms by (simp add: word_le_nat_alt)
  have sub: "unat (c - of_nat k) = unat c - k" using le k by (simp add: unat_sub)
  show "c - of_nat k \<noteq> 0"
  proof
    assume "c - of_nat k = 0"
    then have "unat (c - of_nat k) = 0" by simp
    with sub assms show False by simp
  qed
  show "(c - of_nat k = 1) = (unat c = Suc k)"
  proof
    assume "c - of_nat k = 1"
    then have "unat (c - of_nat k) = 1" by simp
    with sub assms show "unat c = Suc k" by simp
  next
    assume "unat c = Suc k"
    with sub have "unat (c - of_nat k) = unat (1 :: u8)" by simp
    then show "c - of_nat k = 1" by (simp only: word_unat_eq_iff)
  qed
qed

lemma valid_rise_countdown:
  assumes "\<not> irqReload m" "\<not> irqFlag m" "irqEnable m"
  shows "k \<le> unat (irqCounter m) \<Longrightarrow>
     irqCounter ((valid_rise ^^ k) m) = irqCounter m - of_nat k \<and>
     irqFlag ((valid_rise ^^ k) m) = (0 < k \<and> k = unat (irqCounter m)) \<and>
     \<not> irqReload ((valid_rise ^^ k) m) \<and> irqEnable ((valid_rise ^^ k) m)"
proof (induction k)
  case 0
  then show ?case using assms by simp
next
  case (Suc k)
  let ?x = "(valid_rise ^^ k) m"
  from Suc.prems have lt: "k < unat (irqCounter m)" by simp
  with Suc.IH have x: "irqCounter ?x = irqCounter m - of_nat k" "\<not> irqFlag ?x"
    "\<not> irqReload ?x" "irqEnable ?x" by auto
  have nz: "irqCounter ?x \<noteq> 0" using u8_sub_of_nat(1)[OF lt] x(1) by simp
  have one: "(irqCounter ?x = 1) = (unat (irqCounter m) = Suc k)"
    using u8_sub_of_nat(2)[OF lt] x(1) by simp
  from valid_rise_count[OF x(3) nz] x one show ?case by auto
qed

text \<open>
  The counter rule in general: with a reload pending and the IRQ enabled, latch value
  \<open>L\<close> raises the flag at valid edge number \<open>L + 1\<close> and not before.
\<close>

lemma valid_rise_after_reload:
  assumes "irqReload m" "irqEnable m" "\<not> irqFlag m"
  shows "irqFlag ((valid_rise ^^ k) m) = (unat (irqLatch m) + 1 \<le> k)"
proof (cases k)
  case 0
  then show ?thesis using assms by simp
next
  case (Suc j)
  let ?m1 = "valid_rise m"
  let ?n = "unat (irqLatch m)"
  have k: "irqFlag ((valid_rise ^^ k) m) = irqFlag ((valid_rise ^^ j) ?m1)"
    by (simp add: Suc funpow_swap1)
  show ?thesis
  proof (cases "irqLatch m = 0")
    case True
    then have "irqFlag ?m1" using assms by (simp add: valid_rise_def clockIRQ_def Let_def)
    then have "irqFlag ((valid_rise ^^ j) ?m1)" by (rule irqFlag_valid_rises)
    moreover have "?n + 1 \<le> k" using True Suc by simp
    ultimately show ?thesis by (simp only: k)
  next
    case False
    from valid_rise_reload[OF assms(1) False assms(3)] assms(2)
    have m1: "irqCounter ?m1 = irqLatch m" "\<not> irqReload ?m1" "\<not> irqFlag ?m1" "irqEnable ?m1"
      by auto
    have pos: "0 < ?n" using False by (simp add: unat_gt_0)
    show ?thesis
    proof (cases "j \<le> ?n")
      case True
      then have "j \<le> unat (irqCounter ?m1)" by (simp only: m1(1))
      from valid_rise_countdown[OF m1(2) m1(3) m1(4) this]
      have "irqFlag ((valid_rise ^^ j) ?m1) = (0 < j \<and> j = ?n)" by (simp only: m1(1))
      also have "\<dots> = (?n + 1 \<le> k)" using True pos Suc by auto
      finally show ?thesis by (simp only: k)
    next
      case False
      then have "j = (j - ?n) + ?n" by simp
      then obtain d where d: "j = d + ?n" ..
      have "?n \<le> unat (irqCounter ?m1)" by (simp only: m1(1))
      from valid_rise_countdown[OF m1(2) m1(3) m1(4) this] pos
      have "irqFlag ((valid_rise ^^ ?n) ?m1)" by (simp add: m1(1))
      then have "irqFlag ((valid_rise ^^ d) ((valid_rise ^^ ?n) ?m1))"
        by (rule irqFlag_valid_rises)
      then have "irqFlag ((valid_rise ^^ j) ?m1)" by (simp only: d funpow_add o_apply)
      moreover have "?n + 1 \<le> k" using False Suc by simp
      ultimately show ?thesis by (simp only: k)
    qed
  qed
qed

lemma mmc3_irq_edge_rule:
  assumes "irqReload m" and "irqEnable m" and "\<not> irqFlag m" and "0 \<le> a12LowCycles m"
    and "valid_edges ps"
  shows "irqFlag (a12_feed m (a12_pulses ps)) = (unat (irqLatch m) + 1 \<le> length ps)"
  using valid_rise_after_reload[OF assms(1,2,3), of "length ps"]
  by (simp only: a12_feed_pulses[OF assms(5,4)])

text \<open>
  C5 (as amended). An MMC3 with \<open>irqLatch = 5\<close>, \<open>irqCounter = 0\<close>, the reload flag
  pending and the IRQ enabled, fed A12 rising edges that each follow at least 8 dots of
  A12 low, has \<open>irqPending\<close> exactly from the 6th edge on: the first edge performs the
  reload (counter 5), the next five count down to 0.
\<close>

theorem mmc3_irq_sixth_edge:
  assumes "irqLatch m = 5" and "irqCounter m = 0" and "irqReload m" and "irqEnable m"
    and "\<not> irqFlag m" and "0 \<le> a12LowCycles m" and "valid_edges ps"
  shows "irqPending (a12_feed m (a12_pulses ps)) = (6 \<le> length ps)"
  using mmc3_irq_edge_rule[OF assms(3,4,5,6,7)] assms(1)
  by (simp add: irqPending_def)

lemma mmc3_armed_fields:
  "irqLatch mmc3_armed = 5" "irqCounter mmc3_armed = 0" "irqReload mmc3_armed"
  "irqEnable mmc3_armed" "\<not> irqFlag mmc3_armed" "0 \<le> a12LowCycles mmc3_armed"
  by (simp_all add: mmc3_armed_def mmc3_demo_def)

text \<open>The armed state is what the register writes \<^verbatim>\<open>$C000 <- 5\<close>, \<^verbatim>\<open>$C001\<close>, \<^verbatim>\<open>$E001\<close> produce.\<close>

lemma mmc3_armed_by_writes:
  "do { m1 \<leftarrow> mmc3_cpuWrite mmc3_demo 0xC000 5;
        m2 \<leftarrow> mmc3_cpuWrite m1 0xC001 0;
        mmc3_cpuWrite m2 0xE001 0 } = Some mmc3_armed"
  by (simp add: mmc3_cpuWrite_def mmc3_armed_def mmc3_demo_def)

theorem mmc3_irq_sixth_edge_witness:
  "irqPending (a12_feed mmc3_armed (a12_pulses [(8, 1), (8, 1), (8, 1), (8, 1), (8, 1), (8, 1)]))"
proof -
  have v: "valid_edges [(8, 1), (8, 1), (8, 1), (8, 1), (8, 1), (8, 1)]" by simp
  show ?thesis
    using mmc3_irq_sixth_edge[OF mmc3_armed_fields v] by simp
qed

text \<open>C5 as stated fails: after the 5th valid edge no IRQ is pending.\<close>

theorem mmc3_irq_fifth_edge_counterexample:
  "\<not> irqPending (a12_feed mmc3_armed (a12_pulses [(8, 1), (8, 1), (8, 1), (8, 1), (8, 1)]))"
proof -
  have v: "valid_edges [(8, 1), (8, 1), (8, 1), (8, 1), (8, 1)]" by simp
  show ?thesis
    using mmc3_irq_edge_rule[OF mmc3_armed_fields(3,4,5,6) v]
    by (simp add: irqPending_def mmc3_armed_fields)
qed

section \<open>MMC3: every PRG and CHR access is in bounds\<close>

lemma prg_at_total:
  assumes "p \<noteq> []" and "length p < 2 ^ 32"
  shows "\<exists>k. prg_at p bnk off = Some (p ! (k mod length p))"
proof -
  let ?sz = "of_nat (length p) :: u32"
  have usz: "unat ?sz = length p"
    using assms(2) by (simp add: unat_of_nat)
  have nz: "?sz \<noteq> 0"
    using usz assms(1) by (metis length_0_conv unat_0)
  define b where "b = (if ?sz div 0x2000 \<noteq> 0 then bnk mod (?sz div 0x2000) else 0)"
  define x where "x = b * 0x2000 + (off AND 0x1FFF)"
  have addr: "prgBankAddr p bnk off = Some (x mod ?sz)"
    using assms(1) nz by (simp add: prgBankAddr_def Let_def b_def x_def)
  have um: "unat (x mod ?sz) = unat x mod length p"
    by (simp add: unat_mod usz)
  have "unat x mod length p < length p" using assms(1) by simp
  then have "prg_at p bnk off = Some (p ! (unat x mod length p))"
    by (simp add: prg_at_def addr um at_def)
  then show ?thesis by blast
qed

lemma chr1k_total: "c \<noteq> [] \<Longrightarrow> \<exists>k. chr1k c b ofs = Some (k mod length c)"
  by (auto simp: chr1k_def)

lemma chr2k_total: "c \<noteq> [] \<Longrightarrow> \<exists>k. chr2k c b ofs = Some (k mod length c)"
  by (auto simp: chr2k_def Let_def)

lemma at_bank: "length bs = 8 \<Longrightarrow> i < 8 \<Longrightarrow> at bs i = Some (bs ! i)"
  by (simp add: at_def)

lemma bank_idx_hi:
  fixes a :: u16
  assumes "0x1000 \<le> a" "a < 0x2000"
  shows "unat (2 + ucast (drop_bit 10 (a - 0x1000)) :: u8) < 8"
proof -
  have ua: "4096 \<le> unat a" "unat a < 8192"
    using assms by (simp_all add: word_le_nat_alt word_less_nat_alt)
  then have "unat (a - 0x1000) = unat a - 4096"
    using assms(1) by (simp add: unat_sub)
  then have "unat (drop_bit 10 (a - 0x1000)) < 4"
    using ua by (simp add: unat_drop_bit_eq drop_bit_eq_div unat_div)
  then show ?thesis
    by (simp add: unat_word_ariths unsigned_ucast_eq take_bit_eq_mod)
qed

lemma bank_idx_lo:
  fixes a :: u16
  assumes "a < 0x1000"
  shows "unat (2 + ucast (drop_bit 10 a) :: u8) < 8"
proof -
  have "unat a < 4096" using assms by (simp add: word_less_nat_alt)
  then have "unat (drop_bit 10 a) < 4" by (simp add: unat_drop_bit_eq drop_bit_eq_div unat_div)
  then show ?thesis
    by (simp add: unat_word_ariths unsigned_ucast_eq take_bit_eq_mod)
qed

lemma chr_index_total:
  assumes "chr m \<noteq> []" and "length (bank m) = 8" and "a < 0x2000"
  shows "\<exists>k. chr_index m a = Some (k mod length (chr m))"
proof -
  have b0: "at (bank m) 0 = Some (bank m ! 0)"
    and b1: "at (bank m) (Suc 0) = Some (bank m ! Suc 0)"
    using assms(2) by (simp_all add: at_def)
  show ?thesis
  proof (cases "a < 0x1000")
    case True
    have bi: "at (bank m) (unat (2 + ucast (drop_bit 10 a) :: u8))
                = Some (bank m ! unat (2 + ucast (drop_bit 10 a) :: u8))"
      using at_bank[OF assms(2) bank_idx_lo[OF True]] .
    show ?thesis using True
      by (simp add: chr_index_def b0 b1 bi Let_def chr1k_total[OF assms(1)] chr2k_total[OF assms(1)])
  next
    case False
    then have ge: "0x1000 \<le> a" by simp
    have bi: "at (bank m) (unat (2 + ucast (drop_bit 10 (a - 0x1000)) :: u8))
                = Some (bank m ! unat (2 + ucast (drop_bit 10 (a - 0x1000)) :: u8))"
      using at_bank[OF assms(2) bank_idx_hi[OF ge assms(3)]] .
    have nlt: "\<not> a < 0x800" using ge by (simp add: word_le_nat_alt word_less_nat_alt)
    show ?thesis using False nlt
      by (simp add: chr_index_def b0 b1 bi Let_def chr1k_total[OF assms(1)] chr2k_total[OF assms(1)])
  qed
qed


text \<open>
  C10. For a CPU address in \<^verbatim>\<open>$8000-$FFFF\<close> and a PPU address in \<^verbatim>\<open>$0000-$1FFF\<close>, with any
  contents of the eight bank registers, of \<open>bankSelect\<close> and of the mode bits,
  \<open>mmc3_cpuRead\<close>, \<open>mmc3_ppuRead\<close> and \<open>mmc3_ppuWrite\<close> return a result (no fault), and
  the byte they read or write is at an index reduced modulo the size of the PRG or CHR
  vector. The PRG and CHR vectors are non-empty and the PRG size fits the \<^verbatim>\<open>uint32_t\<close>
  that \<^verbatim>\<open>prgBankAddr\<close> casts it to; \<open>bank\<close> has the 8 entries of its
  \<^verbatim>\<open>std::array<uint8_t, 8>\<close>.
\<close>

theorem mmc3_accesses_in_bounds:
  assumes "prg m \<noteq> []" and "length (prg m) < 2 ^ 32" and "chr m \<noteq> []"
    and "length (bank m) = 8" and "0x8000 \<le> a" and "pa < 0x2000"
  shows "(\<exists>k. mmc3_cpuRead m a = Some (prg m ! (k mod length (prg m)))) \<and>
         (\<exists>k. mmc3_ppuRead m pa = Some (chr m ! (k mod length (chr m)))) \<and>
         (\<exists>k. mmc3_ppuWrite m pa v =
               Some (if chrIsRAM m then m\<lparr>chr := (chr m)[k mod length (chr m) := v]\<rparr> else m))"
proof (intro conjI)
  have b6: "at (bank m) 6 = Some (bank m ! 6)" and b7: "at (bank m) 7 = Some (bank m ! 7)"
    using assms(4) by (simp_all add: at_def)
  have hi: "\<not> a < 0x8000" using assms(5) by simp
  note T = prg_at_total[OF assms(1,2)]
  show "\<exists>k. mmc3_cpuRead m a = Some (prg m ! (k mod length (prg m)))"
    using assms(5) hi by (simp add: mmc3_cpuRead_def b6 b7 Let_def T)
next
  obtain k where k: "chr_index m pa = Some (k mod length (chr m))"
    using chr_index_total[OF assms(3,4,6)] by blast
  have lt: "k mod length (chr m) < length (chr m)" using assms(3) by simp
  have n: "\<not> 0x2000 \<le> pa" using assms(6) by simp
  show "\<exists>k. mmc3_ppuRead m pa = Some (chr m ! (k mod length (chr m)))"
    using lt n by (auto simp: mmc3_ppuRead_def k at_def)
  show "\<exists>k. mmc3_ppuWrite m pa v =
               Some (if chrIsRAM m then m\<lparr>chr := (chr m)[k mod length (chr m) := v]\<rparr> else m)"
    using lt n by (auto simp: mmc3_ppuWrite_def k put_def)
qed

theorem mmc3_accesses_in_bounds_witness:
  "(\<exists>k. mmc3_cpuRead mmc3_demo 0xFFFC = Some (prg mmc3_demo ! (k mod length (prg mmc3_demo)))) \<and>
   (\<exists>k. mmc3_ppuRead mmc3_demo 0x1FFF = Some (chr mmc3_demo ! (k mod length (chr mmc3_demo)))) \<and>
   (\<exists>k. mmc3_ppuWrite mmc3_demo 0x1FFF 7 =
         Some (if chrIsRAM mmc3_demo
               then mmc3_demo\<lparr>chr := (chr mmc3_demo)[k mod length (chr mmc3_demo) := 7]\<rparr>
               else mmc3_demo))"
  by (rule mmc3_accesses_in_bounds) (simp_all add: mmc3_demo_def)

section \<open>OAM DMA\<close>

lemma u8_index_unique:
  fixes k start :: u8
  assumes "i < 256"
  shows "(k = start + of_nat i) = (unat (k - start) = i)"
proof
  assume "k = start + of_nat i"
  then have "k - start = of_nat i" by simp
  then show "unat (k - start) = i" using assms by (simp add: unat_of_nat)
next
  assume "unat (k - start) = i"
  then have "of_nat i = k - start" by (metis of_nat_unat ucast_id)
  then show "k = start + of_nat i" by simp
qed

lemma oamDMA_loop_pure:
  fixes s0 :: "('c, 'a) machine"
  assumes pure: "\<And>i o'. f (s0\<lparr>ppu := (ppu s0)\<lparr>oam := o'\<rparr>\<rparr>) i
                   = (page i, s0\<lparr>ppu := (ppu s0)\<lparr>oam := o'\<rparr>\<rparr>)"
  shows "n = 256 - i \<Longrightarrow> i \<le> 256 \<Longrightarrow>
     oamDMA_loop f start i (s0\<lparr>ppu := (ppu s0)\<lparr>oam := o1\<rparr>\<rparr>)
       = s0\<lparr>ppu := (ppu s0)\<lparr>oam := (\<lambda>k. if i \<le> unat (k - start) then page (k - start) else o1 k)\<rparr>\<rparr>"
proof (induction n arbitrary: i o1)
  case 0
  then have i: "i = 256" by simp
  have "(\<lambda>k. if 256 \<le> unat (k - start) then page (k - start) else o1 k) = o1"
  proof (rule ext)
    fix k :: u8
    have "unat (k - start) < 256" using unsigned_less[of "k - start"] by simp
    then show "(if 256 \<le> unat (k - start) then page (k - start) else o1 k) = o1 k" by simp
  qed
  then show ?case by (simp add: i oamDMA_loop.simps)
next
  case (Suc n)
  then have lt: "i < 256" and n: "n = 256 - Suc i" and le: "Suc i \<le> 256" by simp_all
  let ?o2 = "o1(start + of_nat i := page (of_nat i))"
  have step: "oamDMA_loop f start i (s0\<lparr>ppu := (ppu s0)\<lparr>oam := o1\<rparr>\<rparr>)
               = oamDMA_loop f start (Suc i) (s0\<lparr>ppu := (ppu s0)\<lparr>oam := ?o2\<rparr>\<rparr>)"
    using lt by (subst oamDMA_loop.simps) (simp add: pure)
  have fn: "(\<lambda>k. if Suc i \<le> unat (k - start) then page (k - start) else ?o2 k)
          = (\<lambda>k. if i \<le> unat (k - start) then page (k - start) else o1 k)"
  proof (rule ext)
    fix k :: u8
    show "(if Suc i \<le> unat (k - start) then page (k - start) else ?o2 k)
          = (if i \<le> unat (k - start) then page (k - start) else o1 k)"
    proof (cases "unat (k - start) = i")
      case True
      then have k: "k = start + of_nat i" using u8_index_unique[OF lt] by simp
      then have "k - start = of_nat i" by simp
      then show ?thesis using True k by simp
    next
      case False
      then have "k \<noteq> start + of_nat i" using u8_index_unique[OF lt] by simp
      then show ?thesis using False by auto
    qed
  qed
  show ?case
    by (simp only: step Suc.IH[OF n le] fn)
qed

lemma oamDMA_pure:
  fixes s :: "('c, 'a) machine"
  assumes pure: "\<And>i o'. f (s\<lparr>ppu := (ppu s)\<lparr>oam := o'\<rparr>\<rparr>) i
                   = (page i, s\<lparr>ppu := (ppu s)\<lparr>oam := o'\<rparr>\<rparr>)"
  shows "oamDMA f s = s\<lparr>ppu := (ppu s)\<lparr>oam := (\<lambda>k. page (k - OAMADDR (ppu s)))\<rparr>\<rparr>"
proof -
  have "oamDMA_loop f (OAMADDR (ppu s)) 0 (s\<lparr>ppu := (ppu s)\<lparr>oam := oam (ppu s)\<rparr>\<rparr>)
        = s\<lparr>ppu := (ppu s)\<lparr>oam := (\<lambda>k. if 0 \<le> unat (k - OAMADDR (ppu s))
                                       then page (k - OAMADDR (ppu s)) else oam (ppu s) k)\<rparr>\<rparr>"
    by (rule oamDMA_loop_pure[OF pure]) simp_all
  then show ?thesis by (simp add: oamDMA_def)
qed

text \<open>
  C9. For every OAMADDR and every source page (a callback that returns byte \<open>i\<close> of the
  page and touches nothing), \<open>oamDMA\<close> stores source byte \<open>i\<close> at OAM index
  \<open>(OAMADDR + i) mod 256\<close> for all 256 values of \<open>i\<close>, leaves OAMADDR as it was, and
  changes nothing in the session but the contents of OAM.
\<close>

theorem oamDMA_copies_page:
  "(\<forall>i. oam (ppu (oamDMA (\<lambda>s i. (page i, s)) s)) (OAMADDR (ppu s) + i) = page i) \<and>
   OAMADDR (ppu (oamDMA (\<lambda>s i. (page i, s)) s)) = OAMADDR (ppu s) \<and>
   oamDMA (\<lambda>s i. (page i, s)) s
     = s\<lparr>ppu := (ppu s)\<lparr>oam := oam (ppu (oamDMA (\<lambda>s i. (page i, s)) s))\<rparr>\<rparr>"
proof -
  have "oamDMA (\<lambda>s i. (page i, s)) s
          = s\<lparr>ppu := (ppu s)\<lparr>oam := (\<lambda>k. page (k - OAMADDR (ppu s)))\<rparr>\<rparr>"
    by (rule oamDMA_pure) simp
  then show ?thesis by simp
qed


lemma cpuRead_cpu: "cpu (snd (cpuRead h s a)) = cpu s"
  by (simp add: cpuRead_def Let_def split: prod.splits)

lemma oamDMA_loop_cpu:
  "(\<And>s i. cpu (snd (f s i)) = cpu s) \<Longrightarrow> cpu (oamDMA_loop f start i s) = cpu s"
proof (induction f start i s rule: oamDMA_loop.induct)
  case (1 fetch256 start i s)
  show ?case
  proof (cases "i < 256")
    case True
    obtain b s1 where f: "fetch256 s (of_nat i) = (b, s1)" by (cases "fetch256 s (of_nat i)")
    have c1: "cpu s1 = cpu s" using "1.prems"[of s "of_nat i"] f by simp
    let ?s2 = "s1\<lparr>ppu := (ppu s1)\<lparr>oam := (oam (ppu s1))(start + of_nat i := b)\<rparr>\<rparr>"
    have "cpu (oamDMA_loop fetch256 start (Suc i) ?s2) = cpu ?s2"
      using "1.IH"[OF True f[symmetric] refl] "1.prems" by simp
    then show ?thesis
      using True f c1 by (subst oamDMA_loop.simps) simp
  next
    case False
    then show ?thesis by (subst oamDMA_loop.simps) simp
  qed
qed

lemma dma_ram_addr:
  fixes p i :: u8
  assumes "p < 0x20"
  shows "(push_bit 8 (ucast p) + ucast i :: u16) < 0x2000"
proof -
  have p: "unat p < 32" using assms by (simp add: word_less_nat_alt)
  have i: "unat i < 256" using unsigned_less[of i] by simp
  have "unat (push_bit 8 (ucast p) + ucast i :: u16) = unat p * 256 + unat i"
    using p i by (simp add: unat_word_ariths unsigned_ucast_eq unsigned_push_bit_eq
        take_bit_eq_mod push_bit_eq_mult)
  then show ?thesis using p i by (simp add: word_less_nat_alt)
qed

lemma dma_cart_addr:
  fixes p i :: u8
  assumes "0x41 \<le> p"
  shows "0x4100 \<le> (push_bit 8 (ucast p) + ucast i :: u16)"
proof -
  have p: "65 \<le> unat p" using assms by (simp add: word_le_nat_alt)
  have p2: "unat p < 256" using unsigned_less[of p] by simp
  have i: "unat i < 256" using unsigned_less[of i] by simp
  have "unat (push_bit 8 (ucast p) + ucast i :: u16) = unat p * 256 + unat i"
    using p2 i by (simp add: unat_word_ariths unsigned_ucast_eq unsigned_push_bit_eq
        take_bit_eq_mod push_bit_eq_mult)
  then show ?thesis using p by (simp add: word_le_nat_alt)
qed

lemma cpuRead_ram: "a < 0x2000 \<Longrightarrow> cpuRead h s a = (sysRAM s (a AND 0x07FF), s)"
  by (simp add: cpuRead_def)

lemma cpuRead_cart: "0x4100 \<le> a \<Longrightarrow> cpuRead h s a = (cart_cpuRead h (cart s) a, s)"
proof -
  assume a: "0x4100 \<le> a"
  then have "\<not> a < 0x2000" "\<not> a < 0x4000" "a \<noteq> 0x4015" "a \<noteq> 0x4016" "a \<noteq> 0x4017"
    "\<not> a \<le> 0x4017" "0x4020 \<le> a"
    by (auto simp: word_le_nat_alt word_less_nat_alt)
  then show ?thesis by (simp add: cpuRead_def)
qed

lemma odd_cycle_bit: "(w AND 1 \<noteq> 0) = odd (unat (w :: u64))"
  by (simp add: and_one_eq) (metis even_of_nat odd_iff_mod_2_eq_one of_nat_unat ucast_id)

lemma cpuWrite_4014:
  "cpuWrite h s 0x4014 p =
     oamDMA (\<lambda>s' i. cpuRead h s' (push_bit 8 (ucast p) + ucast i))
       (s\<lparr>cpu := (cpu s)\<lparr>dma_stall_cycles := dma_stall_cycles (cpu s) + 513 +
              (if cycles (cpu s) AND 1 \<noteq> 0 then 1 else 0)\<rparr>\<rparr>)"
  by (simp add: cpuWrite_def Let_def)

lemma dma_stall_added:
  "dma_stall_cycles (cpu (cpuWrite h s 0x4014 p))
     = dma_stall_cycles (cpu s) + (if even (unat (cycles (cpu s))) then 513 else 514)"
  by (simp add: cpuWrite_4014 oamDMA_def oamDMA_loop_cpu cpuRead_cpu odd_cycle_bit)

lemma dma_from_ram:
  assumes "p < 0x20"
  shows "oam (ppu (cpuWrite h s 0x4014 p)) (OAMADDR (ppu s) + i)
           = sysRAM s ((push_bit 8 (ucast p) + ucast i) AND 0x07FF)"
proof -
  let ?s1 = "s\<lparr>cpu := (cpu s)\<lparr>dma_stall_cycles := dma_stall_cycles (cpu s) + 513 +
              (if cycles (cpu s) AND 1 \<noteq> 0 then 1 else 0)\<rparr>\<rparr>"
  have "oamDMA (\<lambda>s' i. cpuRead h s' (push_bit 8 (ucast p) + ucast i)) ?s1
          = ?s1\<lparr>ppu := (ppu ?s1)\<lparr>oam := (\<lambda>k. sysRAM s
                ((push_bit 8 (ucast p) + ucast (k - OAMADDR (ppu ?s1))) AND 0x07FF))\<rparr>\<rparr>"
    by (rule oamDMA_pure) (simp add: cpuRead_ram[OF dma_ram_addr[OF assms]])
  then show ?thesis by (simp add: cpuWrite_4014)
qed

lemma dma_from_cart:
  assumes "0x41 \<le> p"
  shows "oam (ppu (cpuWrite h s 0x4014 p)) (OAMADDR (ppu s) + i)
           = cart_cpuRead h (cart s) (push_bit 8 (ucast p) + ucast i)"
proof -
  let ?s1 = "s\<lparr>cpu := (cpu s)\<lparr>dma_stall_cycles := dma_stall_cycles (cpu s) + 513 +
              (if cycles (cpu s) AND 1 \<noteq> 0 then 1 else 0)\<rparr>\<rparr>"
  have "oamDMA (\<lambda>s' i. cpuRead h s' (push_bit 8 (ucast p) + ucast i)) ?s1
          = ?s1\<lparr>ppu := (ppu ?s1)\<lparr>oam := (\<lambda>k. cart_cpuRead h (cart s)
                (push_bit 8 (ucast p) + ucast (k - OAMADDR (ppu ?s1))))\<rparr>\<rparr>"
    by (rule oamDMA_pure) (simp add: cpuRead_cart[OF dma_cart_addr[OF assms]])
  then show ?thesis by (simp add: cpuWrite_4014)
qed

lemma step_stalled:
  "dma_stall_cycles (cpu r) \<noteq> 0 \<Longrightarrow>
     step h r = Some (1, r\<lparr>cpu := (cpu r)\<lparr>dma_stall_cycles := dma_stall_cycles (cpu r) - 1,
                                           cycles := cycles (cpu r) + 1\<rparr>\<rparr>)"
  by (simp add: step_def on_cpu_def)

lemma ucast_byte_index: "i < 256 \<Longrightarrow> (ucast (of_nat i :: u8) :: u16) = of_nat i"
  by (simp add: word_eq_iff_unsigned[where ?'a = nat] unsigned_ucast_eq unat_of_nat take_bit_eq_mod)

lemma oamDMA_loop_upto:
  "n = 256 - i \<Longrightarrow> i \<le> 256 \<Longrightarrow>
     oamDMA_loop (\<lambda>s' j. cpuRead h s' (base + ucast j)) start i (dma_upto h base start i s)
       = dma_upto h base start 256 s"
proof (induction n arbitrary: i)
  case 0
  then have "i = 256" by simp
  then show ?case by (subst oamDMA_loop.simps) simp
next
  case (Suc n)
  then have lt: "i < 256" and n: "n = 256 - Suc i" and le: "Suc i \<le> 256" by simp_all
  have "oamDMA_loop (\<lambda>s' j. cpuRead h s' (base + ucast j)) start i (dma_upto h base start i s)
        = oamDMA_loop (\<lambda>s' j. cpuRead h s' (base + ucast j)) start (Suc i)
            (dma_upto h base start (Suc i) s)"
    using lt by (subst oamDMA_loop.simps) (simp add: ucast_byte_index Let_def split: prod.splits)
  then show ?case using Suc.IH[OF n le] by simp
qed

lemma cpuWrite_4014_upto:
  "cpuWrite h s 0x4014 p
     = dma_upto h (push_bit 8 (ucast p)) (OAMADDR (ppu s)) 256 (dma_begin s)"
proof -
  have "oamDMA_loop (\<lambda>s' j. cpuRead h s' (push_bit 8 (ucast p) + ucast j)) (OAMADDR (ppu s)) 0
          (dma_upto h (push_bit 8 (ucast p)) (OAMADDR (ppu s)) 0 (dma_begin s))
        = dma_upto h (push_bit 8 (ucast p)) (OAMADDR (ppu s)) 256 (dma_begin s)"
    by (rule oamDMA_loop_upto) simp_all
  then show ?thesis
    by (simp add: cpuWrite_4014 oamDMA_def dma_begin_def)
qed

text \<open>No bus read writes OAM, so a byte stored by one transfer survives the later ones.\<close>

lemma cpuRead_oam: "oam (ppu (snd (cpuRead h s a))) = oam (ppu s)"
  by (cases "a AND 7 = 2"; cases "a AND 7 = 4"; cases "a AND 7 = 7")
     (simp_all add: cpuRead_def cpuReadRegister_def Let_def split: prod.splits)

lemma dma_upto_keeps:
  assumes "i < 256"
  shows "i < j \<Longrightarrow> j \<le> 256 \<Longrightarrow>
     oam (ppu (dma_upto h base start j s)) (start + of_nat i)
       = fst (cpuRead h (dma_upto h base start i s) (base + of_nat i))"
proof (induction j)
  case 0
  then show ?case by simp
next
  case (Suc j)
  obtain b s1 where r: "cpuRead h (dma_upto h base start j s) (base + of_nat j) = (b, s1)"
    by (cases "cpuRead h (dma_upto h base start j s) (base + of_nat j)")
  have o1: "oam (ppu s1) = oam (ppu (dma_upto h base start j s))"
    using cpuRead_oam[of h "dma_upto h base start j s" "base + of_nat j"] r by simp
  show ?case
  proof (cases "i = j")
    case True
    then show ?thesis by (simp add: r Let_def)
  next
    case False
    with Suc.prems have ij: "i < j" and j: "j < 256" by simp_all
    have "unat (of_nat i :: u8) = i" "unat (of_nat j :: u8) = j"
      using assms j by (simp_all add: unat_of_nat)
    then have "(of_nat i :: u8) \<noteq> of_nat j"
      using False by auto
    then have ne: "start + of_nat i \<noteq> start + of_nat j" by simp
    have "oam (ppu (dma_upto h base start (Suc j) s)) (start + of_nat i)
            = oam (ppu (dma_upto h base start j s)) (start + of_nat i)"
      using ne by (simp add: r Let_def o1)
    then show ?thesis using Suc.IH[OF ij] j by simp
  qed
qed

lemma dma_every_page:
  "oam (ppu (cpuWrite h s 0x4014 p)) (OAMADDR (ppu s) + i)
     = fst (cpuRead h (dma_upto h (push_bit 8 (ucast p)) (OAMADDR (ppu s)) (unat i) (dma_begin s))
              (push_bit 8 (ucast p) + ucast i))"
proof -
  have i: "unat i < 256" using unsigned_less[of i, where ?'a = nat] by simp
  have c: "(of_nat (unat i) :: u16) = ucast i" by simp
  show ?thesis
    using dma_upto_keeps[OF i, of 256 h "push_bit 8 (ucast p)" "OAMADDR (ppu s)" "dma_begin s"] i
    by (simp add: cpuWrite_4014_upto c)
qed

lemma cpuRead_ppu_reg:
  "0x2000 \<le> a \<Longrightarrow> a < 0x4000 \<Longrightarrow>
     cpuRead h s a = (let (b, p') = cpuReadRegister h (cart s) (ppu s) (0x2000 + (a AND 7))
                      in (b, s\<lparr>ppu := p'\<rparr>))"
  by (simp add: cpuRead_def Let_def word_le_nat_alt word_less_nat_alt)

text \<open>
  C7. A CPU write of \<open>p\<close> to \<^verbatim>\<open>$4014\<close>, for every page \<open>p\<close>, every session and every
  cartridge and APU:

  \<^item> adds 513 stall cycles when the CPU's cycle counter is even and 514 when it is odd;
  \<^item> is the 256 transfers of \<open>dma_upto\<close>, in order, after the stall has been charged;
  \<^item> leaves in OAM entry \<open>OAMADDR + i\<close> (modulo 256) the byte that the bus returned for CPU
    address \<open>p * 256 + i\<close> when transfer \<open>i\<close> read it, for all 256 values of \<open>i\<close>. This holds
    on the device pages \<^verbatim>\<open>$20-$40\<close> too, where a read has side effects and the byte
    depends on the reads before it;
  \<^item> when the page is internal RAM (\<open>p < $20\<close>) that byte is the RAM byte at
    \<open>(p * 256 + i) & $07FF\<close> as it was before the write, and when it is cartridge space
    (\<open>p \<ge> $41\<close>) it is the cartridge's byte at \<open>p * 256 + i\<close>.

  While \<open>dma_stall_cycles\<close> is not 0, \<open>step\<close> returns 1 cycle and changes only
  \<open>dma_stall_cycles\<close> and \<open>cycles\<close>: no fetch, no bus access.
\<close>

theorem oam_dma_stall_and_copy:
  "dma_stall_cycles (cpu (cpuWrite h s 0x4014 p))
     = dma_stall_cycles (cpu s) + (if even (unat (cycles (cpu s))) then 513 else 514) \<and>
   cpuWrite h s 0x4014 p
     = dma_upto h (push_bit 8 (ucast p)) (OAMADDR (ppu s)) 256 (dma_begin s) \<and>
   (\<forall>i. oam (ppu (cpuWrite h s 0x4014 p)) (OAMADDR (ppu s) + i)
          = fst (cpuRead h
                  (dma_upto h (push_bit 8 (ucast p)) (OAMADDR (ppu s)) (unat i) (dma_begin s))
                  (push_bit 8 (ucast p) + ucast i))) \<and>
   (p < 0x20 \<longrightarrow> (\<forall>i. oam (ppu (cpuWrite h s 0x4014 p)) (OAMADDR (ppu s) + i)
                         = sysRAM s ((push_bit 8 (ucast p) + ucast i) AND 0x07FF))) \<and>
   (0x41 \<le> p \<longrightarrow> (\<forall>i. oam (ppu (cpuWrite h s 0x4014 p)) (OAMADDR (ppu s) + i)
                         = cart_cpuRead h (cart s) (push_bit 8 (ucast p) + ucast i))) \<and>
   (dma_stall_cycles (cpu r) \<noteq> 0 \<longrightarrow>
      step h r = Some (1, r\<lparr>cpu := (cpu r)\<lparr>dma_stall_cycles := dma_stall_cycles (cpu r) - 1,
                                            cycles := cycles (cpu r) + 1\<rparr>\<rparr>))"
proof (intro conjI impI allI)
  show "dma_stall_cycles (cpu (cpuWrite h s 0x4014 p))
          = dma_stall_cycles (cpu s) + (if even (unat (cycles (cpu s))) then 513 else 514)"
    by (rule dma_stall_added)
  show "cpuWrite h s 0x4014 p
          = dma_upto h (push_bit 8 (ucast p)) (OAMADDR (ppu s)) 256 (dma_begin s)"
    by (rule cpuWrite_4014_upto)
  show "oam (ppu (cpuWrite h s 0x4014 p)) (OAMADDR (ppu s) + i)
          = fst (cpuRead h
                  (dma_upto h (push_bit 8 (ucast p)) (OAMADDR (ppu s)) (unat i) (dma_begin s))
                  (push_bit 8 (ucast p) + ucast i))" for i
    by (rule dma_every_page)
  show "oam (ppu (cpuWrite h s 0x4014 p)) (OAMADDR (ppu s) + i)
          = sysRAM s ((push_bit 8 (ucast p) + ucast i) AND 0x07FF)" if "p < 0x20" for i
    using that by (rule dma_from_ram)
  show "oam (ppu (cpuWrite h s 0x4014 p)) (OAMADDR (ppu s) + i)
          = cart_cpuRead h (cart s) (push_bit 8 (ucast p) + ucast i)" if "0x41 \<le> p" for i
    using that by (rule dma_from_cart)
  show "step h r = Some (1, r\<lparr>cpu := (cpu r)\<lparr>dma_stall_cycles := dma_stall_cycles (cpu r) - 1,
                                                cycles := cycles (cpu r) + 1\<rparr>\<rparr>)"
    if "dma_stall_cycles (cpu r) \<noteq> 0"
    using that by (rule step_stalled)
qed

text \<open>
  Two closed instances. A write of \<^verbatim>\<open>$02\<close> on the demo machine (cycle counter 0, RAM all
  zero) stalls for 513 cycles, fills OAM with zeros, and the next \<open>step\<close> spends one
  stalled cycle. A write of \<^verbatim>\<open>$20\<close> (the PPU registers) during vertical blank copies the
  registers as the bus reads them: OAM byte 2 is the PPUSTATUS read with bit 7 set, OAM
  byte 10 is the later read of the same register, whose bit 7 the first read cleared.
\<close>

theorem oam_dma_stall_and_copy_witness:
  "dma_stall_cycles (cpu (cpuWrite nrom_hw machine_demo 0x4014 2)) = 513 \<and>
   (\<forall>i. oam (ppu (cpuWrite nrom_hw machine_demo 0x4014 2)) i = 0) \<and>
   step nrom_hw (cpuWrite nrom_hw machine_demo 0x4014 2)
     = Some (1, (cpuWrite nrom_hw machine_demo 0x4014 2)
                  \<lparr>cpu := (cpu (cpuWrite nrom_hw machine_demo 0x4014 2))
                      \<lparr>dma_stall_cycles := 512, cycles := 1\<rparr>\<rparr>) \<and>
   oam (ppu (cpuWrite nrom_hw vblank_demo 0x4014 0x20)) 2 = 0x80 \<and>
   oam (ppu (cpuWrite nrom_hw vblank_demo 0x4014 0x20)) 10 = 0x00"
proof -
  have c: "cycles (cpu machine_demo) = 0" "dma_stall_cycles (cpu machine_demo) = 0"
    "OAMADDR (ppu machine_demo) = 0" "sysRAM machine_demo = (\<lambda>a. 0)"
    by (simp_all add: machine_demo_def cpu_demo_def ppu_demo_def)
  have p: "(2 :: u8) < 0x20" by simp
  have cy: "cycles (cpu (cpuWrite nrom_hw machine_demo 0x4014 2)) = 0"
    by (simp add: cpuWrite_4014 oamDMA_def oamDMA_loop_cpu cpuRead_cpu c)
  have ram: "dma_stall_cycles (cpu (cpuWrite nrom_hw machine_demo 0x4014 2)) = 513 \<and>
     (\<forall>i. oam (ppu (cpuWrite nrom_hw machine_demo 0x4014 2)) i = 0) \<and>
     step nrom_hw (cpuWrite nrom_hw machine_demo 0x4014 2)
       = Some (1, (cpuWrite nrom_hw machine_demo 0x4014 2)
                    \<lparr>cpu := (cpu (cpuWrite nrom_hw machine_demo 0x4014 2))
                        \<lparr>dma_stall_cycles := 512, cycles := 1\<rparr>\<rparr>)"
    using oam_dma_stall_and_copy[of nrom_hw machine_demo 2 "cpuWrite nrom_hw machine_demo 0x4014 2",
        THEN conjunct1]
      oam_dma_stall_and_copy[of nrom_hw machine_demo 2 "cpuWrite nrom_hw machine_demo 0x4014 2",
        THEN conjunct2, THEN conjunct2, THEN conjunct2]
    by (simp add: c p cy)
  have st: "OAMADDR (ppu vblank_demo) = 0"
    by (simp add: vblank_demo_def machine_demo_def ppu_demo_def)
  have u2: "unat (2::u8) = Suc (Suc 0)" by simp
  have u10: "unat (10::u8) = Suc (Suc (Suc (Suc (Suc (Suc (Suc (Suc (Suc (Suc 0)))))))))" by simp
  have every: "oam (ppu (cpuWrite nrom_hw vblank_demo 0x4014 0x20)) (OAMADDR (ppu vblank_demo) + i)
      = fst (cpuRead nrom_hw
              (dma_upto nrom_hw (push_bit 8 (ucast (0x20::u8))) (OAMADDR (ppu vblank_demo)) (unat i)
                 (dma_begin vblank_demo))
              (push_bit 8 (ucast (0x20::u8)) + ucast i))" for i
    using oam_dma_stall_and_copy[of nrom_hw vblank_demo "0x20" vblank_demo,
        THEN conjunct2, THEN conjunct2, THEN conjunct1] by (rule spec)
  have a: "oam (ppu (cpuWrite nrom_hw vblank_demo 0x4014 0x20)) (OAMADDR (ppu vblank_demo) + 2) = 0x80"
    unfolding every[of 2] u2
    by (simp add: st cpuRead_ppu_reg cpuReadRegister_def Let_def dma_begin_def
        vblank_demo_def machine_demo_def ppu_demo_def)
  have b: "oam (ppu (cpuWrite nrom_hw vblank_demo 0x4014 0x20)) (OAMADDR (ppu vblank_demo) + 10) = 0"
    unfolding every[of 10] u10
    by (simp add: st cpuRead_ppu_reg cpuReadRegister_def Let_def dma_begin_def
        vblank_demo_def machine_demo_def ppu_demo_def)
  show ?thesis using ram a b by (simp add: st)
qed

section \<open>PPU: the PPUDATA read\<close>

lemma mapNT_bound: "mapNT a m < 0x1000"
proof -
  define nt where "nt = (a - 0x2000) AND 0x0FFF"
  have nt: "unat nt < 4096"
  proof -
    have "nt AND mask 12 < 2 ^ 12" by (rule and_mask_less') simp
    then show ?thesis
      by (simp add: nt_def mask_eq_exp_minus_1 word_less_nat_alt)
  qed
  have off: "unat (nt AND 0x03FF) < 1024"
  proof -
    have "nt AND mask 10 < 2 ^ 10" by (rule and_mask_less') simp
    then show ?thesis
      by (simp add: mask_eq_exp_minus_1 word_less_nat_alt)
  qed
  have tab: "unat (drop_bit 10 nt) < 4"
    using nt by (simp add: unat_drop_bit_eq drop_bit_eq_div unat_div)
  have a1: "unat (0x400 + (nt AND 0x03FF)) < 4096"
    using off by (simp add: unat_word_ariths)
  have a2: "unat (drop_bit 10 nt * 0x400 + (nt AND 0x03FF)) < 4096"
    using off tab by (simp add: unat_word_ariths)
  show ?thesis
    using a1 a2 off
    by (simp add: mapNT_def Let_def nt_def[symmetric] word_less_nat_alt)
qed

lemma and_3FFF_less: "(x :: u16) AND 0x3FFF < 0x4000"
proof -
  have "x AND mask 14 < 2 ^ 14" by (rule and_mask_less') simp
  then show ?thesis by (simp add: mask_eq_exp_minus_1)
qed

lemma ppuRead_palette:
  assumes "0x3F00 \<le> a AND 0x3FFF"
  shows "ppuRead h c p a = palette p (paletteIndex (a AND 0x3FFF)) AND 0x3F"
proof -
  have 1: "\<not> a AND 0x3FFF < 0x2000"
    using assms by (simp add: word_le_nat_alt word_less_nat_alt)
  have 2: "\<not> a AND 0x3FFF < 0x3F00" using assms by simp
  show ?thesis
    by (simp add: ppuRead_def Let_def 1 2 and_3FFF_less paletteIndex_def)
qed

text \<open>
  C1 (as amended). A CPU read of \<^verbatim>\<open>$2007\<close> returns the previous contents of the read buffer
  and refills the buffer with \<open>ppuRead v\<close>, except when \<open>v AND $3FFF \<ge> $3F00\<close>: then it
  returns the palette byte at \<open>v\<close> (6 bits, \<^verbatim>\<open>$10/$14/$18/$1C\<close> mirrored down), and the
  buffer is filled with that same palette byte. In every case \<open>v\<close> becomes \<open>v + 1\<close> or
  \<open>v + 32\<close>, by bit 2 of PPUCTRL, reduced to 15 bits.
\<close>

theorem ppudata_read:
  "cpuReadRegister h c p 0x2007 =
     (if 0x3F00 \<le> ppu_v p AND 0x3FFF
      then (palette p (paletteIndex (ppu_v p AND 0x3FFF)) AND 0x3F,
            p\<lparr>vramReadBuffer := palette p (paletteIndex (ppu_v p AND 0x3FFF)) AND 0x3F,
              ppu_v := (ppu_v p + (if PPUCTRL p AND 0x04 \<noteq> 0 then 32 else 1)) AND 0x7FFF\<rparr>)
      else (vramReadBuffer p,
            p\<lparr>vramReadBuffer := ppuRead h c p (ppu_v p),
              ppu_v := (ppu_v p + (if PPUCTRL p AND 0x04 \<noteq> 0 then 32 else 1)) AND 0x7FFF\<rparr>))"
proof (cases "0x3F00 \<le> ppu_v p AND 0x3FFF")
  case True
  then show ?thesis
    by (simp add: cpuReadRegister_def Let_def ppuRead_palette incrementVRAMAddr_def)
next
  case False
  then show ?thesis
    by (simp add: cpuReadRegister_def Let_def incrementVRAMAddr_def)
qed

text \<open>
  C1 as stated fails: with \<open>v = $3F00\<close>, nametable byte \<^verbatim>\<open>$55\<close> at \<open>v - $1000\<close> and palette
  byte \<^verbatim>\<open>$0F\<close>, the read returns \<^verbatim>\<open>$0F\<close> and leaves \<^verbatim>\<open>$0F\<close>, not \<^verbatim>\<open>$55\<close>, in the buffer.
\<close>

theorem ppudata_buffer_counterexample:
  "ppu_v ppu_pal_demo = 0x3F00 \<and>
   ppuRead nrom_hw nrom_demo ppu_pal_demo (ppu_v ppu_pal_demo - 0x1000) = 0x55 \<and>
   fst (cpuReadRegister nrom_hw nrom_demo ppu_pal_demo 0x2007) = 0x0F \<and>
   vramReadBuffer (snd (cpuReadRegister nrom_hw nrom_demo ppu_pal_demo 0x2007)) = 0x0F"
  by (simp add: cpuReadRegister_def ppuRead_def Let_def ppu_pal_demo_def ppu_demo_def
      incrementVRAMAddr_def mapNT_def nrom_hw_def nrom_demo_def)

section \<open>PPU: sprite evaluation and the overflow flag\<close>

lemma spriteScan_found:
  "found \<le> 8 \<Longrightarrow> i \<le> 64 \<Longrightarrow>
     fst (spriteScan p i found sec)
       = min 8 (found + length (filter (spriteInRange p) [i..<64]))"
proof (induction p i found sec rule: spriteScan.induct)
  case (1 p i found sec)
  show ?case
  proof (cases "i < 64 \<and> found < 8")
    case True
    then have upt: "[i..<64] = i # [Suc i..<64]" by (simp add: upt_conv_Cons)
    show ?thesis
    proof (cases "spriteInRange p i")
      case t: True
      have "fst (spriteScan p (Suc i) (Suc found) (copySprite p sec found i))
              = min 8 (Suc found + length (filter (spriteInRange p) [Suc i..<64]))"
        using "1.IH"(1)[OF True t] True by simp
      then show ?thesis using True t
        by (subst spriteScan.simps) (simp add: upt)
    next
      case f: False
      have "fst (spriteScan p (Suc i) found sec)
              = min 8 (found + length (filter (spriteInRange p) [Suc i..<64]))"
        using "1.IH"(2)[OF True f] True "1.prems" by simp
      then show ?thesis using True f
        by (subst spriteScan.simps) (simp add: upt)
    qed
  next
    case False
    then have "i = 64 \<or> found = 8" using "1.prems" by auto
    then show ?thesis using False "1.prems"
      by (subst spriteScan.simps) auto
  qed
qed


lemma spriteInRange_cong:
  "oam q = oam p \<Longrightarrow> scanline q = scanline p \<Longrightarrow> PPUCTRL q = PPUCTRL p \<Longrightarrow>
     spriteInRange q = spriteInRange p"
  by (rule ext) (simp add: spriteInRange_def spriteHeight_def)

lemma overflow_bit_set: "((x :: u8) AND NOT 0x20 OR 0x20) AND 0x20 \<noteq> 0"
proof -
  have "(x AND NOT 0x20 OR 0x20) AND 0x20 = (0x20 :: u8)"
    by (simp only: bit.conj_disj_distrib2 and.idem) (simp add: and.assoc)
  then show ?thesis by simp
qed

lemma overflow_bit_clear: "((x :: u8) AND NOT 0x20) AND 0x20 = 0"
  by (simp add: and.assoc)

text \<open>
  What the code does in general: on a visible line the overflow flag is set after sprite
  evaluation exactly when at least 8 sprites are on the line.
\<close>

lemma tickDot65_overflow:
  assumes "0 \<le> scanline p" and "scanline p < 240"
  shows "(PPUSTATUS (tickDot65 p) AND 0x20 \<noteq> 0) = (8 \<le> spritesOnLine p)"
proof -
  let ?p0 = "p\<lparr>secCount := 0, secOAM := replicate 32 0xFF, PPUSTATUS := PPUSTATUS p AND NOT 0x20\<rparr>"
  let ?p1 = "?p0\<lparr>secOAM := replicate 32 0xFF\<rparr>"
  obtain found sec where sc: "spriteScan ?p1 0 0 (secOAM ?p1) = (found, sec)"
    by (cases "spriteScan ?p1 0 0 (secOAM ?p1)")
  have "spriteInRange ?p1 = spriteInRange p" by (rule spriteInRange_cong) simp_all
  then have "found = min 8 (spritesOnLine p)"
    using spriteScan_found[of 0 0 ?p1 "secOAM ?p1"] sc by (simp add: spritesOnLine_def)
  then have f: "(8 \<le> found) = (8 \<le> spritesOnLine p)" by auto
  have "PPUSTATUS (tickDot65 p) =
          (if 8 \<le> found then PPUSTATUS p AND NOT 0x20 OR 0x20 else PPUSTATUS p AND NOT 0x20)"
    using assms sc by (simp add: tickDot65_def evaluateSpritesWindow_def)
  then show ?thesis
    using overflow_bit_set[of "PPUSTATUS p"] overflow_bit_clear[of "PPUSTATUS p"]
    by (cases "8 \<le> spritesOnLine p") (simp_all add: f)
qed

lemma eight_on_line: "spritesOnLine ppu_eight_demo = 8"
  by code_simp

text \<open>
  C3 (the code differs from the claim). On scanline 1 with exactly 8 sprites on the line,
  sprite evaluation at dot 65 sets the overflow flag, bit 5 of PPUSTATUS: the code tests
  \<^verbatim>\<open>found >= 8\<close>, and its loop stops at the 8th sprite, so a 9th is never looked at.
\<close>

theorem sprite_overflow_at_exactly_eight:
  "scanline ppu_eight_demo = 1 \<and> spritesOnLine ppu_eight_demo = 8 \<and>
   PPUSTATUS (tickDot65 ppu_eight_demo) AND 0x20 \<noteq> 0"
proof -
  have sl: "scanline ppu_eight_demo = 1" by (simp add: ppu_eight_demo_def)
  have "(PPUSTATUS (tickDot65 ppu_eight_demo) AND 0x20 \<noteq> 0) = (8 \<le> spritesOnLine ppu_eight_demo)"
    by (rule tickDot65_overflow) (simp_all add: sl)
  then show ?thesis by (simp add: sl eight_on_line)
qed

section \<open>CPU: reset, PHP and PLP, branches\<close>

lemma nrom_demo_bytes:
  "nrom_cpuRead nrom_demo 0x80FE = 0xF0" "nrom_cpuRead nrom_demo 0x80FF = 0x02"
  "nrom_cpuRead nrom_demo 0xFFFC = 0x34" "nrom_cpuRead nrom_demo 0xFFFD = 0x12"
  by (simp_all add: nrom_cpuRead_def nrom_demo_def Let_def nth_append)




lemma stack_addr: "(0x0100 OR ucast (x :: u8) :: u16) < 0x2000"
proof -
  have x: "uint (ucast x :: u16) < 2 ^ 8"
    using unsigned_less[of x, where ?'a = int] by (simp add: unsigned_ucast_eq take_bit_eq_mod)
  have "(256 :: int) OR uint (ucast x :: u16) < 2 ^ 9"
    by (rule OR_upper) (use x in simp_all)
  then have "uint (0x0100 OR ucast x :: u16) < 2 ^ 9"
    by (simp add: unsigned_or_eq)
  then show ?thesis by (simp add: word_less_def)
qed

lemma push8_ram:
  "push8 h s v = s\<lparr>sysRAM := (sysRAM s)((0x0100 OR ucast (reg_S (cpu s))) AND 0x07FF := v),
                    cpu := (cpu s)\<lparr>reg_S := reg_S (cpu s) - 1\<rparr>\<rparr>"
  by (simp add: push8_def wr_def cpuWrite_def stack_addr)

lemma pull8_ram:
  "pull8 h s = (sysRAM s ((0x0100 OR ucast (reg_S (cpu s) + 1)) AND 0x07FF),
                s\<lparr>cpu := (cpu s)\<lparr>reg_S := reg_S (cpu s) + 1\<rparr>\<rparr>)"
  by (simp add: pull8_def rd_def cpuRead_def stack_addr Let_def)

text \<open>
  PHP then PLP in general: P comes back from the stack with B clear and U set, and then
  Z and N are overwritten from the accumulator.
\<close>

lemma php_then_plp:
  "exec h s 0x08 \<bind> (\<lambda>(n, s1). exec h s1 0x28) =
     Some (4, s\<lparr>sysRAM := (sysRAM s)((0x0100 OR ucast (reg_S (cpu s))) AND 0x07FF
                                          := reg_P (cpu s) OR 0x10),
               cpu := setZN8 ((cpu s)\<lparr>reg_P := (reg_P (cpu s) OR 0x10) AND NOT 0x10 OR 0x20,
                                        irq_delay := 1\<rparr>) (reg_A (cpu s))\<rparr>)"
  by (simp add: exec_def push8_ram pull8_ram on_cpu_def Let_def setZN8_def setf_def)

text \<open>
  C2 (the code differs from the claim). With \<open>A = 0\<close> and \<open>P = $24\<close> (Z clear), PHP then PLP
  leaves \<open>P = $26\<close>: PLP ends with \<^verbatim>\<open>setZN8(A)\<close>, which sets Z from the accumulator.
\<close>

theorem php_plp_clobbers_zero_flag:
  "reg_A (cpu machine_demo) = 0 \<and> reg_P (cpu machine_demo) = 0x24 \<and>
   \<not> getf (cpu machine_demo) Flag_Z \<and>
   map_option (\<lambda>(n, s2). reg_P (cpu s2))
     (exec nrom_hw machine_demo 0x08 \<bind> (\<lambda>(n, s1). exec nrom_hw s1 0x28)) = Some 0x26"
  by (simp add: php_then_plp machine_demo_def cpu_demo_def setZN8_def setf_def getf_def)


lemma fetch8_cart:
  "0x4100 \<le> reg_PC (cpu s) \<Longrightarrow>
     fetch8 h s = (cart_cpuRead h (cart s) (reg_PC (cpu s)),
                   s\<lparr>cpu := (cpu s)\<lparr>reg_PC := reg_PC (cpu s) + 1\<rparr>\<rparr>)"
  by (simp add: fetch8_def rd_def Let_def cpuRead_cart)

lemma fetch8_PC: "reg_PC (cpu (snd (fetch8 h s))) = reg_PC (cpu s) + 1"
  by (simp add: fetch8_def rd_def Let_def cpuRead_cpu)

text \<open>
  The cost of a branch: 2 when not taken; when taken, 3 if the new PC is on the page of
  the instruction that follows the branch (the PC after the operand fetch), else 4.
\<close>

lemma branch_cost:
  "fst (branch h s cond) =
     (if cond then
        (if (reg_PC (cpu s) + 1) AND 0xFF00 \<noteq> reg_PC (cpu (snd (branch h s cond))) AND 0xFF00
         then 4 else 3)
      else 2)"
proof -
  obtain off s1 where f: "fetch8 h s = (off, s1)" by (cases "fetch8 h s")
  have pc: "reg_PC (cpu s1) = reg_PC (cpu s) + 1" using fetch8_PC[of h s] f by simp
  show ?thesis by (simp add: branch_def f Let_def pc)
qed

text \<open>
  A step that neither stalls nor services an interrupt fetches and executes one
  instruction, with \<open>irq_delay\<close> cleared.
\<close>

lemma step_executes:
  assumes nostall: "dma_stall_cycles (cpu s) = 0" and nonmi: "\<not> pending_nmi (cpu s)"
    and noirq: "getf (cpu s) Flag_I \<or>
                (\<not> pending_irq (cpu s) \<and> \<not> mapperIRQ h s \<and> \<not> apuIRQ h s)"
  shows "step h s =
           (let (opcode, sx) = fetch8 h (s\<lparr>cpu := (cpu s)\<lparr>irq_delay := 0\<rparr>\<rparr>)
            in case exec h sx opcode of None \<Rightarrow> None
               | Some (n, s4) \<Rightarrow> Some (n, on_cpu (\<lambda>c. c\<lparr>cycles := cycles c + of_int n\<rparr>) s4))"
proof -
  define s2 where "s2 = s\<lparr>cpu := (cpu s)\<lparr>irq_delay := 0\<rparr>\<rparr>"
  have same: "s2 = s" if "irq_delay (cpu s) = 0"
  proof -
    have "(cpu s)\<lparr>irq_delay := irq_delay (cpu s)\<rparr> = cpu s" by simp
    then have "(cpu s)\<lparr>irq_delay := 0\<rparr> = cpu s" using that by simp
    then show ?thesis by (simp add: s2_def)
  qed
  have s2: "getf (cpu s2) Flag_I = getf (cpu s) Flag_I" "pending_irq (cpu s2) = pending_irq (cpu s)"
    "pending_nmi (cpu s2) = pending_nmi (cpu s)" "mapperIRQ h s2 = mapperIRQ h s"
    "apuIRQ h s2 = apuIRQ h s"
    by (simp_all add: s2_def getf_def mapperIRQ_def apuIRQ_def)
  show ?thesis
  proof (cases "irq_delay (cpu s) = 0")
    case True
    show ?thesis
      unfolding s2_def[symmetric] same[OF True]
      using nostall nonmi True noirq
      by (cases "getf (cpu s) Flag_I"; cases "mapperIRQ h s"; cases "apuIRQ h s";
          cases "pending_irq (cpu s)")
         (simp_all add: step_def Let_def)
  next
    case False
    have "on_cpu (\<lambda>c. c\<lparr>irq_delay := 0\<rparr>) s = s2" by (simp add: on_cpu_def s2_def)
    then show ?thesis
      unfolding s2_def[symmetric]
      using nostall nonmi False noirq s2
      by (cases "getf (cpu s) Flag_I"; cases "mapperIRQ h s"; cases "apuIRQ h s";
          cases "pending_irq (cpu s)")
         (simp_all add: step_def Let_def)
  qed
qed

lemma beq_scenario:
  assumes pc: "reg_PC (cpu s) = 0x80FE"
    and op: "cart_cpuRead h (cart s) 0x80FE = 0xF0"
    and operand: "cart_cpuRead h (cart s) 0x80FF = 0x02"
    and z: "getf (cpu s) Flag_Z"
    and nostall: "dma_stall_cycles (cpu s) = 0" and nonmi: "\<not> pending_nmi (cpu s)"
    and noirq: "getf (cpu s) Flag_I \<or>
                (\<not> pending_irq (cpu s) \<and> \<not> mapperIRQ h s \<and> \<not> apuIRQ h s)"
  shows "step h s = Some (3, s\<lparr>cpu := (cpu s)\<lparr>reg_PC := 0x8102, cycles := cycles (cpu s) + 3,
                                              irq_delay := 0\<rparr>\<rparr>)"
proof -
  define s2 where "s2 = s\<lparr>cpu := (cpu s)\<lparr>irq_delay := 0\<rparr>\<rparr>"
  have f1: "fetch8 h s2 = (0xF0, s2\<lparr>cpu := (cpu s2)\<lparr>reg_PC := 0x80FF\<rparr>\<rparr>)"
    using fetch8_cart[of s2 h] pc op by (simp add: s2_def)
  define s3 where "s3 = s2\<lparr>cpu := (cpu s2)\<lparr>reg_PC := 0x80FF\<rparr>\<rparr>"
  have f2: "fetch8 h s3 = (0x02, s3\<lparr>cpu := (cpu s3)\<lparr>reg_PC := 0x8100\<rparr>\<rparr>)"
    using fetch8_cart[of s3 h] operand by (simp add: s3_def s2_def)
  have z3: "getf (cpu s3) Flag_Z" using z by (simp add: s3_def s2_def getf_def)
  have br: "branch h s3 True = (3, s3\<lparr>cpu := (cpu s3)\<lparr>reg_PC := 0x8102\<rparr>\<rparr>)"
    by (simp add: branch_def f2 Let_def)
  have ex: "exec h s3 0xF0 = Some (3, s3\<lparr>cpu := (cpu s3)\<lparr>reg_PC := 0x8102\<rparr>\<rparr>)"
    by (simp add: exec_def z3 br)
  show ?thesis
    unfolding step_executes[OF nostall nonmi noirq] s2_def[symmetric]
    by (simp add: f1 s3_def[symmetric] ex on_cpu_def) (simp add: s3_def s2_def)
qed

text \<open>
  C6 (as amended). BEQ with opcode bytes \<^verbatim>\<open>$F0 $02\<close> at \<^verbatim>\<open>$80FE\<close>, Z set, no stall and no
  interrupt to service (no NMI pending; I set, or no IRQ pending or asserted), leaves \<open>PC = $8102\<close> and costs 3 cycles: the operand fetch leaves
  PC at \<^verbatim>\<open>$8100\<close>, the target \<^verbatim>\<open>$8102\<close> is on the same page. In general a branch costs 2
  cycles when not taken, 3 when taken onto the page of the following instruction and 4
  when taken onto another page.
\<close>

theorem beq_at_80FE:
  assumes "reg_PC (cpu s) = 0x80FE"
    and "cart_cpuRead h (cart s) 0x80FE = 0xF0"
    and "cart_cpuRead h (cart s) 0x80FF = 0x02"
    and "getf (cpu s) Flag_Z"
    and "dma_stall_cycles (cpu s) = 0" and "\<not> pending_nmi (cpu s)"
    and "getf (cpu s) Flag_I \<or>
         (\<not> pending_irq (cpu s) \<and> \<not> mapperIRQ h s \<and> \<not> apuIRQ h s)"
  shows "step h s = Some (3, s\<lparr>cpu := (cpu s)\<lparr>reg_PC := 0x8102, cycles := cycles (cpu s) + 3,
                                              irq_delay := 0\<rparr>\<rparr>) \<and>
         (\<forall>cond s0. fst (branch h s0 cond) =
            (if cond then
               (if (reg_PC (cpu s0) + 1) AND 0xFF00 \<noteq> reg_PC (cpu (snd (branch h s0 cond))) AND 0xFF00
                then 4 else 3)
             else 2))"
  using beq_scenario[OF assms] branch_cost by blast

lemma beq_demo_facts:
  "reg_PC (cpu beq_demo) = 0x80FE"
  "cart_cpuRead nrom_hw (cart beq_demo) 0x80FE = 0xF0"
  "cart_cpuRead nrom_hw (cart beq_demo) 0x80FF = 0x02"
  "getf (cpu beq_demo) Flag_Z"
  "dma_stall_cycles (cpu beq_demo) = 0" "\<not> pending_nmi (cpu beq_demo)"
  "getf (cpu beq_demo) Flag_I \<or>
     (\<not> pending_irq (cpu beq_demo) \<and> \<not> mapperIRQ nrom_hw beq_demo \<and> \<not> apuIRQ nrom_hw beq_demo)"
  by (simp_all add: beq_demo_def machine_demo_def cpu_demo_def nrom_hw_def nrom_demo_bytes getf_def)

theorem beq_at_80FE_witness:
  "step nrom_hw beq_demo
     = Some (3, beq_demo\<lparr>cpu := (cpu beq_demo)\<lparr>reg_PC := 0x8102,
                  cycles := cycles (cpu beq_demo) + 3, irq_delay := 0\<rparr>\<rparr>)"
  using beq_at_80FE[OF beq_demo_facts] by blast

text \<open>C6 as stated fails: the scenario yields 3 cycles and \<open>PC = $8102\<close>, not 4 and \<^verbatim>\<open>$8104\<close>.\<close>

theorem beq_at_80FE_counterexample:
  "reg_PC (cpu beq_demo) = 0x80FE \<and> getf (cpu beq_demo) Flag_Z \<and>
   map_option (\<lambda>(n, s'). (n, reg_PC (cpu s'))) (step nrom_hw beq_demo) = Some (3, 0x8102)"
  using beq_scenario[OF beq_demo_facts] by (simp add: beq_demo_facts)

section \<open>The NMI edge detector\<close>

text \<open>
  The register file acts on the six fields of the view as \<open>vw_access\<close> says, and no
  other register access changes them.
\<close>

lemma ppu_view_cpuReadRegister:
  "ppu_view (snd (cpuReadRegister h c p a))
     = (if a AND 7 = 2 then vw_access (ppu_view p) Read2002 else ppu_view p)"
  by (cases "a AND 7 = 2"; cases "a AND 7 = 4"; cases "a AND 7 = 7")
     (simp_all add: cpuReadRegister_def ppu_view_def Let_def)

lemma ppuWrite_view: "ppu_view (snd (ppuWrite h c p a v)) = ppu_view p"
  by (simp add: ppuWrite_def ppu_view_def Let_def)

lemma ppu_view_cpuWriteRegister:
  "ppu_view (snd (cpuWriteRegister h c p a v))
     = (if a AND 7 = 0 then vw_access (ppu_view p) (Write2000 v)
        else if a AND 7 = 1 then vw_access (ppu_view p) (Write2001 v)
        else ppu_view p)"
proof -
  have w7: "ppu_view (snd (case ppuWrite h c p (ppu_v p) v of
              (c', p') \<Rightarrow> (c', p'\<lparr>ppu_v := (ppu_v p' + incrementVRAMAddr p') AND 0x7FFF\<rparr>)))
            = ppu_view p"
    using ppuWrite_view[of h c p "ppu_v p" v]
    by (cases "ppuWrite h c p (ppu_v p) v") (simp add: ppu_view_def)
  show ?thesis
    by (cases "a AND 7 = 0"; cases "a AND 7 = 1"; cases "a AND 7 = 3"; cases "a AND 7 = 4";
        cases "a AND 7 = 5"; cases "a AND 7 = 6"; cases "a AND 7 = 7"; cases "addrLatch p")
       (simp_all add: cpuWriteRegister_def w7 Let_def, simp_all add: ppu_view_def)
qed

lemma ppu_view_level: "nmiLevel (ppu_view p) = (nmi_occurred p \<and> nmi_output p)"
  by (simp add: nmiLevel_def vw_nmi_output_def nmi_output_def ppu_view_def)

text \<open>
  \<open>budget\<close> never decreases: a posted NMI is paid for by the vblank entry or by the
  write that raised bit 7 of PPUCTRL.
\<close>

lemma vw_tick_occurred:
  "vw_nmi_occurred (vw_tick v) \<Longrightarrow> vw_nmi_occurred v \<or> enters_vblank v"
  by (auto simp: vw_tick_def vw_startScanline_def enters_vblank_def Let_def split: if_splits)

lemma vw_tick_PPUCTRL: "vw_PPUCTRL (vw_tick v) = vw_PPUCTRL v"
  by (simp add: vw_tick_def vw_startScanline_def Let_def)

lemma tick_poll_fields:
  "view (tick_poll s) = vw_tick (view s)"
  "nmiLinePrev (tick_poll s) = nmiLevel (vw_tick (view s))"
  "nmi_calls (tick_poll s) = nmi_calls s + (if nmiLevel (vw_tick (view s)) \<and> \<not> nmiLinePrev s then 1 else 0)"
  "vblank_entries (tick_poll s) = vblank_entries s + (if enters_vblank (view s) then 1 else 0)"
  "enable_raises (tick_poll s) = enable_raises s"
  by (simp_all add: tick_poll_def Let_def)

lemma budget_tick_poll: "budget s \<le> budget (tick_poll s)"
proof -
  have no_owed: "\<not> edge_owed (tick_poll s)"
    by (simp add: edge_owed_def tick_poll_fields)
  have lvl: "nmiLevel (vw_tick (view s)) \<Longrightarrow> nmiLevel (view s) \<or> enters_vblank (view s)"
    using vw_tick_occurred[of "view s"]
    by (auto simp: nmiLevel_def vw_nmi_output_def vw_tick_PPUCTRL)
  show ?thesis
    using lvl by (auto simp: budget_def no_owed tick_poll_fields edge_owed_def)
qed

lemma budget_cpu_access: "budget s \<le> budget (cpu_access s a)"
  by (cases a)
     (auto simp: budget_def cpu_access_def edge_owed_def nmiLevel_def vw_nmi_output_def)

lemma budget_ticks: "budget s \<le> budget ((tick_poll ^^ n) s)"
proof (induction n)
  case 0
  then show ?case by simp
next
  case (Suc n)
  have "budget ((tick_poll ^^ n) s) \<le> budget (tick_poll ((tick_poll ^^ n) s))"
    by (rule budget_tick_poll)
  with Suc show ?case by simp
qed

lemma budget_accesses: "budget s \<le> budget (foldl cpu_access s as)"
proof (induction as arbitrary: s)
  case Nil
  then show ?case by simp
next
  case (Cons a as)
  have "budget s \<le> budget (cpu_access s a)" by (rule budget_cpu_access)
  also have "\<dots> \<le> budget (foldl cpu_access (cpu_access s a) as)" by (rule Cons.IH)
  finally show ?case by simp
qed

lemma budget_sched_step: "budget s \<le> budget (sched_step s it)"
  using budget_accesses[of s "fst it"] budget_ticks[of "foldl cpu_access s (fst it)" "3 * snd it"]
  by (simp add: sched_step_def)

lemma budget_sched_run: "budget s \<le> budget (sched_run s its)"
  unfolding sched_run_def
proof (induction its arbitrary: s)
  case Nil
  then show ?case by simp
next
  case (Cons it its)
  have "budget s \<le> budget (sched_step s it)" by (rule budget_sched_step)
  also have "\<dots> \<le> budget (foldl sched_step (sched_step s it) its)" by (rule Cons.IH)
  finally show ?case by simp
qed

lemma nmi_calls_bound:
  assumes "\<not> edge_owed s"
  shows "nmi_calls (sched_run s its) + vblank_entries s + enable_raises s
           \<le> nmi_calls s + vblank_entries (sched_run s its) + enable_raises (sched_run s its)"
  using budget_sched_run[of s its] assms by (simp add: budget_def split: if_splits)


text \<open>
  C8 (as amended). After every PPU tick the scheduler posts an NMI exactly when the level
  \<open>nmi_occurred \<and> nmi_output\<close> is high now and was low at the previous poll. Over any
  run that starts with no high level still to be seen by the detector, and for every
  sequence of CPU accesses, the number of NMIs posted is at most the number of vblank
  entries plus the number of \<^verbatim>\<open>$2000\<close> writes that switched bit 7 of PPUCTRL from 0 to 1.
  So a run with at most one vblank entry and no such write posts at most one NMI.
\<close>

theorem nmi_edges_bounded:
  assumes "\<not> edge_owed s"
  shows "(\<forall>t. nmi_calls (tick_poll t)
               = nmi_calls t + (if nmiLevel (view (tick_poll t)) \<and> \<not> nmiLinePrev t then 1 else 0) \<and>
              nmiLinePrev (tick_poll t) = nmiLevel (view (tick_poll t))) \<and>
         nmi_calls (sched_run s its) + vblank_entries s + enable_raises s
           \<le> nmi_calls s + vblank_entries (sched_run s its) + enable_raises (sched_run s its) \<and>
         (vblank_entries (sched_run s its) \<le> vblank_entries s + 1 \<and>
          enable_raises (sched_run s its) = enable_raises s
            \<longrightarrow> nmi_calls (sched_run s its) \<le> nmi_calls s + 1)"
  using nmi_calls_bound[OF assms, of its] by (simp add: tick_poll_fields)

text \<open>One tick and poll on scanline 241, written out on explicit states.\<close>

lemma tick_poll_line241:
  assumes "0 \<le> d" and "d < 340"
  shows "tick_poll \<lparr>view = \<lparr>vw_PPUCTRL = ctl, vw_PPUMASK = msk, vw_nmi_occurred = occ,
                              vw_scanline = 241, vw_dot = d, vw_frame_odd = od\<rparr>,
                    nmiLinePrev = prev, nmi_calls = n, vblank_entries = e, enable_raises = r\<rparr>
         = \<lparr>view = \<lparr>vw_PPUCTRL = ctl, vw_PPUMASK = msk, vw_nmi_occurred = (occ \<or> d = 0),
                     vw_scanline = 241, vw_dot = d + 1, vw_frame_odd = od\<rparr>,
            nmiLinePrev = ((occ \<or> d = 0) \<and> ctl AND 0x80 \<noteq> 0),
            nmi_calls = n + (if (occ \<or> d = 0) \<and> ctl AND 0x80 \<noteq> 0 \<and> \<not> prev then 1 else 0),
            vblank_entries = e + (if d = 0 then 1 else 0), enable_raises = r\<rparr>"
  using assms
  by (cases "d = 0"; cases occ; cases prev; cases "ctl AND 0x80 = 0")
     (simp_all add: tick_poll_def vw_tick_def vw_startScanline_def enters_vblank_def nmiLevel_def
        vw_nmi_output_def Let_def)

lemma cpu_access_explicit:
  "cpu_access \<lparr>view = \<lparr>vw_PPUCTRL = ctl, vw_PPUMASK = msk, vw_nmi_occurred = occ,
                          vw_scanline = sl, vw_dot = d, vw_frame_odd = od\<rparr>,
               nmiLinePrev = prev, nmi_calls = n, vblank_entries = e, enable_raises = r\<rparr> Read2002
     = \<lparr>view = \<lparr>vw_PPUCTRL = ctl, vw_PPUMASK = msk, vw_nmi_occurred = False,
                 vw_scanline = sl, vw_dot = d, vw_frame_odd = od\<rparr>,
        nmiLinePrev = prev, nmi_calls = n, vblank_entries = e, enable_raises = r\<rparr>"
  "cpu_access \<lparr>view = \<lparr>vw_PPUCTRL = ctl, vw_PPUMASK = msk, vw_nmi_occurred = occ,
                          vw_scanline = sl, vw_dot = d, vw_frame_odd = od\<rparr>,
               nmiLinePrev = prev, nmi_calls = n, vblank_entries = e, enable_raises = r\<rparr> (Write2000 val)
     = \<lparr>view = \<lparr>vw_PPUCTRL = val, vw_PPUMASK = msk, vw_nmi_occurred = occ,
                 vw_scanline = sl, vw_dot = d, vw_frame_odd = od\<rparr>,
        nmiLinePrev = prev, nmi_calls = n, vblank_entries = e,
        enable_raises = r + (if ctl AND 0x80 = 0 \<and> val AND 0x80 \<noteq> 0 then 1 else 0)\<rparr>"
  by (simp_all add: cpu_access_def vw_nmi_output_def)

lemma six_ticks:
  "(tick_poll ^^ 6) s = tick_poll (tick_poll (tick_poll (tick_poll (tick_poll (tick_poll s)))))"
  by (simp add: eval_nat_numeral)

lemma twelve_ticks: "(tick_poll ^^ 12) s = (tick_poll ^^ 6) ((tick_poll ^^ 6) s)"
  using funpow_add[of 6 6 tick_poll] by simp

lemma three_ticks: "(tick_poll ^^ 3) s = tick_poll (tick_poll (tick_poll s))"
  by (simp add: eval_nat_numeral)

lemma twentyone_ticks:
  "(tick_poll ^^ 21) s = (tick_poll ^^ 3) ((tick_poll ^^ 6) ((tick_poll ^^ 12) s))"
  using funpow_add[of 3 18 tick_poll] funpow_add[of 6 12 tick_poll] by simp

lemma nmi_demo_one_period:
  "sched_run nmi_demo [([], 2), ([Read2002], 4)]
     = \<lparr>view = \<lparr>vw_PPUCTRL = 0x80, vw_PPUMASK = 0, vw_nmi_occurred = False,
                 vw_scanline = 241, vw_dot = 18, vw_frame_odd = False\<rparr>,
        nmiLinePrev = False, nmi_calls = 1, vblank_entries = 1, enable_raises = 0\<rparr>"
  by (simp add: sched_run_def sched_step_def six_ticks twelve_ticks nmi_demo_def
      tick_poll_line241 cpu_access_explicit)

theorem nmi_edges_bounded_witness:
  "nmi_calls (sched_run nmi_demo [([], 2), ([Read2002], 4)]) \<le> nmi_calls nmi_demo + 1"
proof -
  have o: "\<not> edge_owed nmi_demo"
    by (simp add: edge_owed_def nmi_demo_def nmiLevel_def)
  have c: "nmi_calls nmi_demo = 0" "vblank_entries nmi_demo = 0" "enable_raises nmi_demo = 0"
    by (simp_all add: nmi_demo_def)
  show ?thesis
    using nmi_edges_bounded[OF o, of "[([], 2), ([Read2002], 4)]"]
    by (simp add: nmi_demo_one_period c)
qed

text \<open>
  C8 as stated fails. From (241, 0) with NMI enabled: vblank is entered and the first NMI is
  posted; the CPU services it (7 cycles), then writes \<^verbatim>\<open>$00\<close> and \<^verbatim>\<open>$80\<close> to \<^verbatim>\<open>$2000\<close>
  without reading \<^verbatim>\<open>$2002\<close>. The second write raises the level again and a second NMI is
  posted, still on scanline 241 of the same vblank period.
\<close>

theorem nmi_twice_in_one_vblank_counterexample:
  "vw_scanline (view nmi_demo) = 241 \<and> vw_dot (view nmi_demo) = 0 \<and>
   sched_run nmi_demo [([], 2), ([], 7), ([Write2000 0x00], 4), ([Write2000 0x80], 4)]
     = \<lparr>view = \<lparr>vw_PPUCTRL = 0x80, vw_PPUMASK = 0, vw_nmi_occurred = True,
                 vw_scanline = 241, vw_dot = 51, vw_frame_odd = False\<rparr>,
        nmiLinePrev = True, nmi_calls = 2, vblank_entries = 1, enable_raises = 1\<rparr>"
  by (simp add: sched_run_def sched_step_def three_ticks six_ticks twelve_ticks twentyone_ticks
      nmi_demo_def
      tick_poll_line241 cpu_access_explicit)

end
